theory Spec2Isabelle
  imports Complex_Main
begin

section \<open>JavaScript strings\<close>

text \<open>
  Strings are \<^typ>\<open>string\<close>, and the texts are taken to be ASCII. On ASCII
  \<open>trim\<close> strips tab, line feed, vertical tab, form feed, carriage return and space
  from both ends, and \<open>toLowerCase\<close> maps \<open>A\<close>..\<open>Z\<close> to \<open>a\<close>..\<open>z\<close>; what the
  two methods do to other characters (the no-break space and the other Unicode spaces
  that \<open>trim\<close> strips as well, the letters beyond ASCII that \<open>toLowerCase\<close> maps)
  is not modelled. \<open>split\<close> is \<open>String.prototype.split\<close> with a one-character
  separator: the empty string splits into one empty piece.
\<close>

definition isSpace :: "char \<Rightarrow> bool" where
  "isSpace c = (c \<in> set [CHR 0x09, CHR 0x0A, CHR 0x0B, CHR 0x0C, CHR 0x0D, CHR '' ''])"

definition trim :: "string \<Rightarrow> string" where
  "trim s = rev (dropWhile isSpace (rev (dropWhile isSpace s)))"

definition lowerChar :: "char \<Rightarrow> char" where
  "lowerChar c =
     (case map_of (zip ''ABCDEFGHIJKLMNOPQRSTUVWXYZ'' ''abcdefghijklmnopqrstuvwxyz'') c of
        Some l \<Rightarrow> l
      | None \<Rightarrow> c)"

definition toLowerCase :: "string \<Rightarrow> string" where
  "toLowerCase s = map lowerChar s"

fun split :: "char \<Rightarrow> string \<Rightarrow> string list" where
  "split d [] = [[]]"
| "split d (c # cs) =
     (if c = d then [] # split d cs
      else (case split d cs of [] \<Rightarrow> [[c]] | w # ws \<Rightarrow> (c # w) # ws))"


section \<open>The CSV item parser\<close>

text \<open>
  \<open>parseCSV\<close> hands the text to the \<open>csv-parse\<close> library with three options:
  \<open>columns\<close> (a callback that lower-cases and trims the header cells),
  \<open>skip_empty_lines\<close> and \<open>trim\<close>. The library is not part of the repository. Its
  lexical layer (record and field delimiters, quoting, skipping empty lines, trimming
  cells) is the parameter \<open>lexer\<close>: it either rejects the text or returns the
  non-empty lines as lists of trimmed cells. What the library does with these lines
  under the \<open>columns\<close> option is written out in \<open>parse\<close>: the first line is the
  header, the callback turns it into the column names, and every later line becomes
  an object that is filled column by column, so that of two columns with one name the
  later one stays. The first line that has not as many cells as there are columns makes
  the library throw its error \<open>CSV_RECORD_INCONSISTENT_COLUMNS\<close>; the model holds
  the two lengths of that error, not the wording of its message, which is the
  library's.

  A JavaScript object with string values is a map \<^typ>\<open>string \<rightharpoonup> string\<close>; reading a
  key that is absent gives \<open>undefined\<close>, here \<^const>\<open>None\<close>.
\<close>

datatype error =
    CsvError string
  | InvalidRecordLength nat nat
  | Error string

type_synonym csv_object = "string \<rightharpoonup> string"

type_synonym csv_lexer = "string \<Rightarrow> error + string list list"

definition columns :: "string list \<Rightarrow> string list" where
  "columns header = map (\<lambda>column. trim (toLowerCase column)) header"

definition to_object :: "string list \<Rightarrow> string list \<Rightarrow> csv_object" where
  "to_object cols cells = fold (\<lambda>(c, v) obj. obj(c \<mapsto> v)) (zip cols cells) Map.empty"

definition parse :: "csv_lexer \<Rightarrow> string \<Rightarrow> error + csv_object list" where
  "parse lexer content =
     (case lexer content of
        Inl e \<Rightarrow> Inl e
      | Inr [] \<Rightarrow> Inr []
      | Inr (header # rows) \<Rightarrow>
          (let cols = columns header in
           case find (\<lambda>row. length row \<noteq> length cols) rows of
             None \<Rightarrow> Inr (map (to_object cols) rows)
           | Some row \<Rightarrow> Inl (InvalidRecordLength (length cols) (length row))))"

record CSVRow =
  csv_sku :: "string option"
  csv_price :: "string option"

definition expectedPriceHeader :: "string \<Rightarrow> string" where
  "expectedPriceHeader format =
     (if format = ''BASE'' then ''base price'' else ''actual price'')"

definition priceColumnName :: "string \<Rightarrow> string" where
  "priceColumnName format =
     (if format = ''BASE'' then ''Base Price'' else ''Actual Price'')"

definition missingColumn :: "string \<Rightarrow> string" where
  "missingColumn name = ''CSV must contain '' @ [CHR 0x27] @ name @ [CHR 0x27] @ '' column.''"

definition parseCSV :: "csv_lexer \<Rightarrow> string \<Rightarrow> string \<Rightarrow> error + CSVRow list" where
  "parseCSV lexer content format =
     (case parse lexer content of
        Inl e \<Rightarrow> Inl e
      | Inr records \<Rightarrow>
          (case records of
             [] \<Rightarrow> Inr []
           | firstRecord # _ \<Rightarrow>
               if firstRecord ''sku'' = None
               then Inl (Error (missingColumn ''sku''))
               else if firstRecord (expectedPriceHeader format) = None
               then Inl (Error (missingColumn (priceColumnName format)))
               else Inr (map (\<lambda>record.
                      \<lparr>csv_sku = record ''sku'',
                       csv_price = record (expectedPriceHeader format)\<rparr>) records)))"

text \<open>
  A tokeniser for unquoted comma-separated text, standing in for the library's when the
  parser is run on a concrete file: lines end at a line feed, lines that are empty
  after trimming are dropped, cells are separated by commas and trimmed.
\<close>

definition plainLexer :: csv_lexer where
  "plainLexer content =
     Inr (map (\<lambda>line. map trim (split CHR '','' line))
            (filter (\<lambda>line. trim line \<noteq> []) (split CHR 0x0A content)))"


section \<open>Numbers\<close>

text \<open>
  A price is a JavaScript number in the route and in the synchroniser, and a
  \<open>Decimal\<close> in the store. Both are read as the rational they denote, and
  \<open>Decimal.toNumber\<close> followed by storing the number again is the identity.
  The products, the difference and the quotient of the edit route are taken in
  \<^typ>\<open>rat\<close>: they are the program's where its doubles are exact, and differ from
  them by the rounding of IEEE doubles elsewhere; the infinities are not modelled.

  What the program gets from JavaScript is a parameter: \<open>parseFloat\<close>, with
  \<open>parsesToNaN\<close> telling the strings for which it gives \<open>NaN\<close>;
  \<open>Decimal.toString\<close>; and \<open>invalidDate\<close>, telling the strings for which
  \<open>new Date\<close> gives an Invalid Date.
\<close>

type_synonym number = rat

record builtins =
  parseFloat :: "string \<Rightarrow> number"
  parsesToNaN :: "string \<Rightarrow> bool"
  toString :: "number \<Rightarrow> string"
  invalidDate :: "string \<Rightarrow> bool"


section \<open>The offer store\<close>

text \<open>
  The tables \<open>Offer\<close> and \<open>OfferItem\<close>. \<open>status\<close>, \<open>priceType\<close> and
  \<open>pricingFormat\<close> are text columns, compared with string literals by the program. An
  offer's primary key is the key of the map \<open>offers\<close>; a date is held as the text it
  was entered as. \<open>nextItemId\<close> is the auto-increment counter of \<open>OfferItem\<close>.
\<close>

record Offer =
  title :: "string option"
  vendor :: string
  startDate :: "string option"
  endDate :: "string option"
  tags :: string
  status :: string
  priceType :: string
  pricingFormat :: string
  markup :: "number option"
  discount :: "number option"

record OfferItem =
  item_id :: nat
  offerId :: nat
  sku :: string
  offerPrice :: number
  originalPrice :: "number option"

record database =
  offers :: "nat \<rightharpoonup> Offer"
  offerItems :: "OfferItem list"
  nextItemId :: nat

text \<open>\<open>prisma.offer.findUnique\<close> with \<open>include: { items: true }\<close>.\<close>

definition findUnique :: "database \<Rightarrow> nat \<Rightarrow> (Offer \<times> OfferItem list) option" where
  "findUnique d i =
     (case offers d i of
        None \<Rightarrow> None
      | Some offer \<Rightarrow> Some (offer, filter (\<lambda>item. offerId item = i) (offerItems d)))"

text \<open>
  \<open>prisma.offerItem.update\<close> and \<open>prisma.offer.update\<close> throw when no row has the
  key: the result is \<^const>\<open>None\<close> then.
\<close>

definition offerItem_update :: "nat \<Rightarrow> number \<Rightarrow> database \<Rightarrow> database option" where
  "offerItem_update i p d =
     (if i \<in> set (map item_id (offerItems d))
      then Some (d\<lparr>offerItems :=
             map (\<lambda>item. if item_id item = i then item\<lparr>originalPrice := Some p\<rparr> else item)
               (offerItems d)\<rparr>)
      else None)"

definition offer_update_status :: "nat \<Rightarrow> string \<Rightarrow> database \<Rightarrow> database option" where
  "offer_update_status i s d =
     (case offers d i of
        None \<Rightarrow> None
      | Some offer \<Rightarrow> Some (d\<lparr>offers := (offers d)(i \<mapsto> offer\<lparr>status := s\<rparr>)\<rparr>))"


section \<open>The edit route\<close>

text \<open>
  The loader and the action of the route \<open>app.offers.$id.edit\<close>, for a request that
  is authenticated. The multipart form: \<open>formData.get\<close> gives \<open>null\<close>
  (\<^const>\<open>None\<close>) for a field that was not sent. The uploaded file is its text; its size is positive when the text
  is not empty. A value is truthy when it is neither \<open>null\<close> nor the empty string.
\<close>

record formData =
  form_title :: "string option"
  form_vendor :: "string option"
  form_priceType :: "string option"
  form_pricingFormat :: "string option"
  form_startDate :: "string option"
  form_endDate :: "string option"
  form_tags :: "string option"
  form_markup :: "string option"
  form_discount :: "string option"
  form_file :: "string option"

definition truthy :: "string option \<Rightarrow> bool" where
  "truthy v = (case v of None \<Rightarrow> False | Some s \<Rightarrow> s \<noteq> [])"

definition orEmpty :: "string option \<Rightarrow> string" where
  "orEmpty v = (case v of None \<Rightarrow> [] | Some s \<Rightarrow> s)"

text \<open>
  The answers of the route: \<open>json({ error }, { status })\<close>, a thrown \<open>Response\<close>,
  the redirect to the offer's page, the loader's data, and a throw that nothing
  catches. \<open>InvalidCSV e\<close> is the answer with status 400 whose error text is
  \<open>Invalid CSV:\<close> followed by the message of the caught error \<open>e\<close>.
\<close>

datatype response =
    Json nat string
  | InvalidCSV error
  | Response nat string
  | Redirect nat
  | LoaderData Offer
  | Crashed

text \<open>The loader of the edit page (the vendor list it also fetches is left out).\<close>

definition loader :: "nat \<Rightarrow> database \<Rightarrow> response" where
  "loader i d =
     (case offers d i of
        None \<Rightarrow> Response 404 ''Not Found''
      | Some offer \<Rightarrow>
          if status offer \<noteq> ''PENDING'' then Response 400 ''Offer cannot be edited''
          else LoaderData offer)"

text \<open>The price of one uploaded row, as computed inside \<open>items.map\<close>.\<close>

definition itemOfferPrice :: "builtins \<Rightarrow> string \<Rightarrow> number \<Rightarrow> number \<Rightarrow> string \<Rightarrow> number" where
  "itemOfferPrice js format m d p =
     (let offerPrice = parseFloat js p in
      if format = ''BASE''
      then (let basePrice = parseFloat js p in (basePrice * m) * (1 - d / 100))
      else offerPrice)"

text \<open>
  The rows handed to the nested \<open>create\<close>. A row whose \<open>sku\<close> is
  \<open>undefined\<close>, or whose price is \<open>undefined\<close> or parses to \<open>NaN\<close>, has no
  counterpart in the store (\<open>sku\<close> is a required column, and a \<open>Decimal\<close> column
  takes no \<open>NaN\<close>): the write throws.
\<close>

definition itemCreate :: "builtins \<Rightarrow> string \<Rightarrow> number \<Rightarrow> number \<Rightarrow> CSVRow \<Rightarrow> (string \<times> number) option" where
  "itemCreate js format m d item =
     (case (csv_sku item, csv_price item) of
        (Some s, Some p) \<Rightarrow>
          if parsesToNaN js p then None else Some (s, itemOfferPrice js format m d p)
      | _ \<Rightarrow> None)"

text \<open>
  \<open>prisma.offer.update\<close> with the nested \<open>items: { deleteMany: {}, create: [...] }\<close>:
  the offer's rows are deleted and the new ones inserted under fresh keys, with no
  original price.
\<close>

definition replaceItems :: "nat \<Rightarrow> (string \<times> number) list \<Rightarrow> database \<Rightarrow> database" where
  "replaceItems i new d =
     d\<lparr>offerItems :=
         filter (\<lambda>item. offerId item \<noteq> i) (offerItems d)
         @ map (\<lambda>(k, (s, p)).
              \<lparr>item_id = nextItemId d + k, offerId = i, sku = s, offerPrice = p,
               originalPrice = None\<rparr>) (enumerate 0 new),
       nextItemId := nextItemId d + length new\<rparr>"

text \<open>
  The three checks of the form fields, in the order of the source. After them
  \<open>prisma.offer.update\<close> throws when the offer does not exist, when the markup or the
  discount of a \<open>BASE\<close> offer parsed to \<open>NaN\<close>, and when a date of an \<open>OFFER\<close>
  is an Invalid Date.
\<close>

definition fieldError :: "formData \<Rightarrow> string option" where
  "fieldError form =
     (if \<not> truthy (form_title form) \<or> \<not> truthy (form_vendor form)
         \<or> \<not> truthy (form_priceType form) \<or> \<not> truthy (form_pricingFormat form)
      then Some ''Missing required fields''
      else if form_priceType form = Some ''OFFER''
           \<and> (\<not> truthy (form_startDate form) \<or> \<not> truthy (form_endDate form))
      then Some ''Start and End dates are required for Offer price type''
      else if form_pricingFormat form = Some ''BASE''
           \<and> (\<not> truthy (form_markup form) \<or> \<not> truthy (form_discount form))
      then Some ''Markup and Discount are required for Base pricing format''
      else None)"

definition action :: "builtins \<Rightarrow> csv_lexer \<Rightarrow> nat \<Rightarrow> formData \<Rightarrow> database \<Rightarrow> response \<times> database" where
  "action js lexer i form d =
     (case fieldError form of
        Some msg \<Rightarrow> (Json 400 msg, d)
      | None \<Rightarrow>
        (let format = orEmpty (form_pricingFormat form);
             m = (if truthy (form_markup form) then parseFloat js (orEmpty (form_markup form)) else 0);
             dis = (if truthy (form_discount form) then parseFloat js (orEmpty (form_discount form)) else 0);
             updateData = (\<lambda>offer. offer
               \<lparr>title := Some (orEmpty (form_title form)),
                vendor := orEmpty (form_vendor form),
                priceType := orEmpty (form_priceType form),
                pricingFormat := format,
                markup := (if format = ''BASE'' then Some m else None),
                discount := (if format = ''BASE'' then Some dis else None),
                startDate := (if form_priceType form = Some ''OFFER''
                              then (if truthy (form_startDate form) then form_startDate form else None)
                              else None),
                endDate := (if form_priceType form = Some ''OFFER''
                            then (if truthy (form_endDate form) then form_endDate form else None)
                            else None),
                tags := orEmpty (form_tags form)\<rparr>);
             invalid =
               ((format = ''BASE''
                 \<and> (parsesToNaN js (orEmpty (form_markup form))
                      \<or> parsesToNaN js (orEmpty (form_discount form))))
                \<or> (form_priceType form = Some ''OFFER''
                    \<and> (invalidDate js (orEmpty (form_startDate form))
                         \<or> invalidDate js (orEmpty (form_endDate form)))));
             update = (\<lambda>items.
               case offers d i of
                 None \<Rightarrow> (Crashed, d)
               | Some offer \<Rightarrow>
                   if invalid then (Crashed, d)
                   else
                   (case items of
                      None \<Rightarrow> (Redirect i, d\<lparr>offers := (offers d)(i \<mapsto> updateData offer)\<rparr>)
                    | Some rows \<Rightarrow>
                        (case those (map (itemCreate js format m dis) rows) of
                           None \<Rightarrow> (Crashed, d)
                         | Some new \<Rightarrow>
                             (Redirect i,
                              replaceItems i new
                                (d\<lparr>offers := (offers d)(i \<mapsto> updateData offer)\<rparr>)))))
         in if truthy (form_file form)
            then (case parseCSV lexer (orEmpty (form_file form)) format of
                    Inl e \<Rightarrow> (InvalidCSV e, d)
                  | Inr items \<Rightarrow> update (Some items))
            else update None))"


section \<open>The price synchroniser\<close>

text \<open>
  The remote catalogue is reached through \<open>admin.graphql\<close> only. It is a parameter:
  a transition function on a remote state of any type, from a request to a reply.
  The three requests are the variant lookup by SKU (\<open>first: 1\<close>, so the reply holds
  the first edge's node or none), the bulk update of one variant's price (product id,
  variant id, price) and the update of a product's tags. A reply is the lookup's
  variant, the price update's \<open>userErrors\<close>, the updated product, or \<open>Rejected\<close>
  when the call throws. A reply of another shape than the one the program reads makes
  the program throw as well (it reads a field of \<open>undefined\<close>).

  The lookup of \<open>revertOfferPrices\<close> does not ask for the price; its reply is read as
  a variant whose price is not used.

  \<open>calls\<close> is a ghost log of the calls made, each with the key of the item the loop
  was working on.
\<close>

record variant =
  variant_id :: string
  variant_price :: string
  product_id :: string
  product_tags :: "string list"

datatype request =
    ProductVariants string
  | ProductVariantsBulkUpdate string string string
  | ProductUpdate string "string list"

datatype reply =
    Rejected
  | Variant "variant option"
  | UserErrors "string list"
  | Product

type_synonym 'r admin = "request \<Rightarrow> 'r \<Rightarrow> reply \<times> 'r"

record 'r world =
  remote :: 'r
  db :: database
  calls :: "(nat \<times> request \<times> reply) list"

datatype outcome = Returned | Threw

definition graphql :: "'r admin \<Rightarrow> nat \<Rightarrow> request \<Rightarrow> 'r world \<Rightarrow> reply \<times> 'r world" where
  "graphql admin i req w =
     (case admin req (remote w) of
        (rep, r) \<Rightarrow> (rep, w\<lparr>remote := r, calls := calls w @ [(i, req, rep)]\<rparr>))"

text \<open>\<open>offer.tags.split(',').map(t => t.trim()).filter(Boolean)\<close>\<close>

definition parseTags :: "string \<Rightarrow> string list" where
  "parseTags s = filter (\<lambda>t. t \<noteq> []) (map trim (split CHR '','' s))"

text \<open>
  \<open>[...new Set([...currentTags, ...offerTags])]\<close>: a \<open>Set\<close> keeps the order of
  first insertion.
\<close>

definition newSet :: "string list \<Rightarrow> string list" where
  "newSet xs = fold (\<lambda>x acc. if x \<in> set acc then acc else acc @ [x]) xs []"

definition mergeTags :: "string list \<Rightarrow> string list \<Rightarrow> string list" where
  "mergeTags currentTags offerTags = newSet (currentTags @ offerTags)"

text \<open>\<open>currentTags.filter(t => !offerTags.includes(t))\<close>\<close>

definition removeTags :: "string list \<Rightarrow> string list \<Rightarrow> string list" where
  "removeTags currentTags offerTags = filter (\<lambda>t. t \<notin> set offerTags) currentTags"

text \<open>The body of the loop of \<open>applyOfferPrices\<close>, for one item.\<close>

definition applyItem :: "builtins \<Rightarrow> 'r admin \<Rightarrow> Offer \<Rightarrow> string list \<Rightarrow> OfferItem \<Rightarrow> 'r world \<Rightarrow> outcome \<times> 'r world" where
  "applyItem js admin offer offerTags item w =
     (case graphql admin (item_id item) (ProductVariants (sku item)) w of
        (Variant None, w1) \<Rightarrow> (Returned, w1)
      | (Variant (Some v), w1) \<Rightarrow>
          (let priceToStore =
                 (if priceType offer = ''REGULAR'' then offerPrice item
                  else parseFloat js (variant_price v))
           in case offerItem_update (item_id item) priceToStore (db w1) of
                None \<Rightarrow> (Threw, w1)
              | Some d \<Rightarrow>
                  (case graphql admin (item_id item)
                          (ProductVariantsBulkUpdate (product_id v) (variant_id v)
                             (toString js (offerPrice item)))
                          (w1\<lparr>db := d\<rparr>) of
                     (UserErrors errs, w2) \<Rightarrow>
                       if offerTags \<noteq> []
                       then (case graphql admin (item_id item)
                                    (ProductUpdate (product_id v)
                                       (mergeTags (product_tags v) offerTags)) w2 of
                               (Rejected, w3) \<Rightarrow> (Threw, w3)
                             | (_, w3) \<Rightarrow> (Returned, w3))
                       else (Returned, w2)
                   | (_, w2) \<Rightarrow> (Threw, w2)))
      | (_, w1) \<Rightarrow> (Threw, w1))"

text \<open>A \<open>for ... of\<close> loop that an exception leaves.\<close>

fun forEach :: "('a \<Rightarrow> 's \<Rightarrow> outcome \<times> 's) \<Rightarrow> 'a list \<Rightarrow> 's \<Rightarrow> outcome \<times> 's" where
  "forEach body [] w = (Returned, w)"
| "forEach body (x # xs) w =
     (case body x w of
        (Returned, w1) \<Rightarrow> forEach body xs w1
      | (Threw, w1) \<Rightarrow> (Threw, w1))"

definition applyOfferPrices :: "builtins \<Rightarrow> 'r admin \<Rightarrow> nat \<Rightarrow> 'r world \<Rightarrow> outcome \<times> 'r world" where
  "applyOfferPrices js admin i w =
     (case findUnique (db w) i of
        None \<Rightarrow> (Returned, w)
      | Some (offer, items) \<Rightarrow>
          if status offer \<noteq> ''PENDING'' then (Returned, w)
          else
            (case forEach (applyItem js admin offer (parseTags (tags offer))) items w of
               (Threw, w1) \<Rightarrow> (Threw, w1)
             | (Returned, w1) \<Rightarrow>
                 (case offer_update_status i ''ACTIVE'' (db w1) of
                    None \<Rightarrow> (Threw, w1)
                  | Some d \<Rightarrow> (Returned, w1\<lparr>db := d\<rparr>))))"

text \<open>The body of the loop of \<open>revertOfferPrices\<close>, for one item.\<close>

definition revertItem :: "builtins \<Rightarrow> 'r admin \<Rightarrow> string list \<Rightarrow> OfferItem \<Rightarrow> 'r world \<Rightarrow> outcome \<times> 'r world" where
  "revertItem js admin offerTags item w =
     (case originalPrice item of
        None \<Rightarrow> (Returned, w)
      | Some p \<Rightarrow>
          (case graphql admin (item_id item) (ProductVariants (sku item)) w of
             (Variant None, w1) \<Rightarrow> (Returned, w1)
           | (Variant (Some v), w1) \<Rightarrow>
               (case graphql admin (item_id item)
                       (ProductVariantsBulkUpdate (product_id v) (variant_id v) (toString js p))
                       w1 of
                  (Rejected, w2) \<Rightarrow> (Threw, w2)
                | (_, w2) \<Rightarrow>
                    if offerTags \<noteq> []
                    then (case graphql admin (item_id item)
                                 (ProductUpdate (product_id v)
                                    (removeTags (product_tags v) offerTags)) w2 of
                            (Rejected, w3) \<Rightarrow> (Threw, w3)
                          | (_, w3) \<Rightarrow> (Returned, w3))
                    else (Returned, w2))
           | (_, w1) \<Rightarrow> (Threw, w1)))"

definition revertOfferPrices :: "builtins \<Rightarrow> 'r admin \<Rightarrow> nat \<Rightarrow> 'r world \<Rightarrow> outcome \<times> 'r world" where
  "revertOfferPrices js admin i w =
     (case findUnique (db w) i of
        None \<Rightarrow> (Returned, w)
      | Some (offer, items) \<Rightarrow>
          if status offer \<noteq> ''ACTIVE'' then (Returned, w)
          else
            (case forEach (revertItem js admin (parseTags (tags offer))) items w of
               (Threw, w1) \<Rightarrow> (Threw, w1)
             | (Returned, w1) \<Rightarrow>
                 (case offer_update_status i ''COMPLETED'' (db w1) of
                    None \<Rightarrow> (Threw, w1)
                  | Some d \<Rightarrow> (Returned, w1\<lparr>db := d\<rparr>))))"

text \<open>
  A remote to run the synchroniser against: a catalogue of variants by SKU that stores
  what the mutations send, and a quota of calls after which every call is rejected.
\<close>

record shop =
  catalogue :: "(string \<times> variant) list"
  quota :: nat

definition shopAdmin :: "shop admin" where
  "shopAdmin req s =
     (if quota s = 0 then (Rejected, s)
      else
        (let s1 = s\<lparr>quota := quota s - 1\<rparr> in
         case req of
           ProductVariants k \<Rightarrow> (Variant (map_of (catalogue s) k), s1)
         | ProductVariantsBulkUpdate pid vid p \<Rightarrow>
             (UserErrors [],
              s1\<lparr>catalogue := map (\<lambda>(k, v).
                     (k, if variant_id v = vid then v\<lparr>variant_price := p\<rparr> else v))
                   (catalogue s)\<rparr>)
         | ProductUpdate pid ts \<Rightarrow>
             (Product,
              s1\<lparr>catalogue := map (\<lambda>(k, v).
                     (k, if product_id v = pid then v\<lparr>product_tags := ts\<rparr> else v))
                   (catalogue s)\<rparr>)))"


text \<open>The variant lookups in a stretch of the call log: item key and SKU, in order.\<close>

fun lookups :: "(nat \<times> request \<times> reply) list \<Rightarrow> (nat \<times> string) list" where
  "lookups [] = []"
| "lookups ((k, ProductVariants s, rep) # cs) = (k, s) # lookups cs"
| "lookups (c # cs) = lookups cs"

text \<open>
  What a run of the activation loop may do to a row of \<open>OfferItem\<close>: leave it as
  it is, or, for the rows whose key is in \<open>A\<close>, set its original price.
\<close>

definition touched :: "nat set \<Rightarrow> OfferItem \<Rightarrow> OfferItem \<Rightarrow> bool" where
  "touched A r r' = (r' = r \<or> (item_id r \<in> A \<and> (\<exists>p. r' = r\<lparr>originalPrice := Some p\<rparr>)))"


section \<open>An example store and catalogue\<close>

text \<open>
  Offer 1 has two items: \<open>SK1\<close>, which the catalogue sells at \<open>80.00\<close> with the tag
  \<open>summer\<close>, and \<open>SK2\<close>, which the catalogue does not have. A third row belongs to
  another offer. The builtins are tabulated on the strings and prices that occur.
\<close>

definition exampleBuiltins :: builtins where
  "exampleBuiltins =
     \<lparr>parseFloat = (\<lambda>s. if s = ''80.00'' then 80 else if s = ''100'' then 100
                        else if s = ''50.00'' then 50 else if s = ''1.2'' then 6 / 5
                        else if s = ''10'' then 10 else 0),
      parsesToNaN = (\<lambda>s. s \<notin> set [''80.00'', ''100'', ''50.00'', ''1.2'', ''10'']),
      toString = (\<lambda>p. if p = 100 then ''100'' else if p = 80 then ''80'' else ''0''),
      invalidDate = (\<lambda>s. s = [])\<rparr>"

definition exampleOffer :: "string \<Rightarrow> string \<Rightarrow> Offer" where
  "exampleOffer st ty =
     \<lparr>title = Some ''Sale'', vendor = ''Acme'', startDate = None, endDate = None,
      tags = ''sale, summer'', status = st, priceType = ty, pricingFormat = ''ACTUAL'',
      markup = None, discount = None\<rparr>"

definition exampleItems :: "number option \<Rightarrow> OfferItem list" where
  "exampleItems orig =
     [\<lparr>item_id = 1, offerId = 1, sku = ''SK1'', offerPrice = 100, originalPrice = orig\<rparr>,
      \<lparr>item_id = 2, offerId = 1, sku = ''SK2'', offerPrice = 5, originalPrice = None\<rparr>,
      \<lparr>item_id = 3, offerId = 2, sku = ''SK1'', offerPrice = 7, originalPrice = None\<rparr>]"

definition exampleDb :: "string \<Rightarrow> string \<Rightarrow> number option \<Rightarrow> database" where
  "exampleDb st ty orig =
     \<lparr>offers = [1 \<mapsto> exampleOffer st ty], offerItems = exampleItems orig, nextItemId = 4\<rparr>"

definition exampleShop :: "nat \<Rightarrow> shop" where
  "exampleShop q =
     \<lparr>catalogue = [(''SK1'', \<lparr>variant_id = ''v1'', variant_price = ''80.00'',
                               product_id = ''p1'', product_tags = [''summer'']\<rparr>)],
      quota = q\<rparr>"

definition exampleWorld :: "string \<Rightarrow> string \<Rightarrow> number option \<Rightarrow> nat \<Rightarrow> shop world" where
  "exampleWorld st ty orig q =
     \<lparr>remote = exampleShop q, db = exampleDb st ty orig, calls = []\<rparr>"



text \<open>
  An activation that is cut short: with a quota of three calls the first item is
  synchronised and the lookup of the second is rejected. Afterwards the quota is
  restored.
\<close>

definition exampleCrashed :: "shop world" where
  "exampleCrashed =
     snd (applyOfferPrices exampleBuiltins shopAdmin 1 (exampleWorld ''PENDING'' ''OFFER'' None 3))"

definition exampleResumed :: "shop world" where
  "exampleResumed = exampleCrashed\<lparr>remote := (remote exampleCrashed)\<lparr>quota := 10\<rparr>\<rparr>"

text \<open>
  Two uploads and an edit form: a file in the \<open>ACTUAL\<close> format with an empty line
  and padded cells, a file in the \<open>BASE\<close> format, and a form that submits the
  latter with markup \<open>1.2\<close> and discount \<open>10\<close>.
\<close>

definition exampleCsv :: string where
  "exampleCsv = '' SKU , Actual Price'' @ [CHR 0x0A] @ ''SK1,100.00'' @ [CHR 0x0A, CHR 0x0A]
                @ ''SK2, 5.50 '' @ [CHR 0x0A]"

definition exampleCsvBase :: string where
  "exampleCsvBase = ''sku,Base Price'' @ [CHR 0x0A] @ ''SK2,50.00''"

definition exampleForm :: formData where
  "exampleForm =
     \<lparr>form_title = Some ''Changed'', form_vendor = Some ''Acme'',
      form_priceType = Some ''REGULAR'', form_pricingFormat = Some ''BASE'',
      form_startDate = None, form_endDate = None, form_tags = Some ''new'',
      form_markup = Some ''1.2'', form_discount = Some ''10'',
      form_file = Some exampleCsvBase\<rparr>"


section \<open>Properties of the CSV item parser\<close>

lemma to_object_snoc:
  "length cs = length vs \<Longrightarrow> to_object (cs @ [c]) (vs @ [v]) = (to_object cs vs)(c \<mapsto> v)"
  by (simp add: to_object_def)

lemma to_object_index:
  "k \<in> set cols \<Longrightarrow>
     \<exists>i<length cols. cols ! i = k \<and>
       (\<forall>cells. length cells = length cols \<longrightarrow> to_object cols cells k = Some (cells ! i))"
proof (induction cols rule: rev_induct)
  case Nil
  then show ?case by simp
next
  case (snoc c cs)
  show ?case
  proof (cases "c = k")
    case True
    have "\<forall>cells. length cells = length (cs @ [c]) \<longrightarrow>
            to_object (cs @ [c]) cells k = Some (cells ! length cs)"
    proof (intro allI impI)
      fix cells :: "string list"
      assume len: "length cells = length (cs @ [c])"
      then obtain vs v where cells: "cells = vs @ [v]" and lvs: "length cs = length vs"
        by (cases cells rule: rev_cases) auto
      show "to_object (cs @ [c]) cells k = Some (cells ! length cs)"
        using True lvs by (simp add: cells to_object_snoc)
    qed
    with True show ?thesis
      by (intro exI[of _ "length cs"]) simp
  next
    case False
    with snoc.prems have "k \<in> set cs" by simp
    from snoc.IH[OF this] obtain i where i: "i < length cs" "cs ! i = k"
      and at: "\<forall>cells. length cells = length cs \<longrightarrow> to_object cs cells k = Some (cells ! i)"
      by blast
    have "\<forall>cells. length cells = length (cs @ [c]) \<longrightarrow>
            to_object (cs @ [c]) cells k = Some (cells ! i)"
    proof (intro allI impI)
      fix cells :: "string list"
      assume len: "length cells = length (cs @ [c])"
      then obtain vs v where cells: "cells = vs @ [v]" and lvs: "length cs = length vs"
        by (cases cells rule: rev_cases) auto
      have "to_object cs vs k = Some (vs ! i)"
        using at lvs by simp
      then show "to_object (cs @ [c]) cells k = Some (cells ! i)"
        using False lvs i by (simp add: cells to_object_snoc nth_append)
    qed
    with i show ?thesis
      by (intro exI[of _ i]) (simp add: nth_append)
  qed
qed

lemma fold_upd_dom:
  "dom (fold (\<lambda>(c, v) obj. obj(c \<mapsto> v)) xs m) = dom m \<union> fst ` set xs"
  by (induction xs arbitrary: m) auto

lemma to_object_absent:
  "k \<notin> set cols \<Longrightarrow> to_object cols cells k = None"
proof -
  assume k: "k \<notin> set cols"
  have "dom (to_object cols cells) = fst ` set (zip cols cells)"
    by (simp add: to_object_def fold_upd_dom)
  moreover have "fst ` set (zip cols cells) \<subseteq> set cols"
    by (auto dest: set_zip_leftD)
  ultimately have "k \<notin> dom (to_object cols cells)"
    using k by blast
  then show ?thesis by blast
qed

lemma find_wrong_length:
  "list_all (\<lambda>row. length row = n) rows \<Longrightarrow> find (\<lambda>row. length row \<noteq> n) rows = None"
  by (induction rows) auto

lemma find_right_length:
  "find (\<lambda>row. length row \<noteq> n) rows = None \<Longrightarrow> list_all (\<lambda>row. length row = n) rows"
  by (induction rows) (auto split: if_splits)

text \<open>
  C6. When the text tokenises into a header and data rows of the header's length, and
  the lower-cased, trimmed header holds \<open>sku\<close> and the price column of the requested
  format (\<open>base price\<close> for \<open>BASE\<close>, \<open>actual price\<close> otherwise), \<open>parseCSV\<close> returns one
  record per data row, in row order; there is one position \<open>i\<close> of a \<open>sku\<close> column and
  one position \<open>j\<close> of the price column such that every record holds exactly the cells
  of its row at \<open>i\<close> and \<open>j\<close>.
\<close>

theorem parseCSV_one_record_per_row:
  assumes "lexer content = Inr (header # rows)"
    and "list_all (\<lambda>row. length row = length header) rows"
    and "''sku'' \<in> set (columns header)"
    and "expectedPriceHeader format \<in> set (columns header)"
  shows "\<exists>i j. i < length header \<and> j < length header
           \<and> columns header ! i = ''sku''
           \<and> columns header ! j = expectedPriceHeader format
           \<and> parseCSV lexer content format
               = Inr (map (\<lambda>row. \<lparr>csv_sku = Some (row ! i), csv_price = Some (row ! j)\<rparr>) rows)"
proof -
  let ?cols = "columns header"
  let ?e = "expectedPriceHeader format"
  have len: "length ?cols = length header"
    by (simp add: columns_def)
  from to_object_index[OF assms(3)] obtain i where i: "i < length ?cols" "?cols ! i = ''sku''"
    and ati: "\<forall>cells. length cells = length ?cols \<longrightarrow> to_object ?cols cells ''sku'' = Some (cells ! i)"
    by blast
  from to_object_index[OF assms(4)] obtain j where j: "j < length ?cols" "?cols ! j = ?e"
    and atj: "\<forall>cells. length cells = length ?cols \<longrightarrow> to_object ?cols cells ?e = Some (cells ! j)"
    by blast
  have rowlen: "\<And>row. row \<in> set rows \<Longrightarrow> length row = length ?cols"
    using assms(2) len by (simp add: list_all_iff)
  have recs: "parse lexer content = Inr (map (to_object ?cols) rows)"
    using assms(1) find_wrong_length[OF assms(2)] by (simp add: parse_def columns_def)
  have mapped: "map (\<lambda>record. \<lparr>csv_sku = record ''sku'', csv_price = record ?e\<rparr>) (map (to_object ?cols) rows)
                  = map (\<lambda>row. \<lparr>csv_sku = Some (row ! i), csv_price = Some (row ! j)\<rparr>) rows"
    using ati atj rowlen by simp
  have "parseCSV lexer content format
          = Inr (map (\<lambda>row. \<lparr>csv_sku = Some (row ! i), csv_price = Some (row ! j)\<rparr>) rows)"
  proof (cases rows)
    case Nil
    then show ?thesis by (simp add: parseCSV_def recs)
  next
    case (Cons r rs)
    then have "r \<in> set rows" by simp
    then have "length r = length ?cols" by (rule rowlen)
    then have "to_object ?cols r ''sku'' \<noteq> None" "to_object ?cols r ?e \<noteq> None"
      using ati atj by simp_all
    then show ?thesis
      using mapped by (simp add: parseCSV_def recs Cons)
  qed
  with i j len show ?thesis by auto
qed


text \<open>The equations that run the parser on a concrete file.\<close>

lemmas csv_defs = parseCSV_def parse_def plainLexer_def columns_def to_object_def trim_def
  toLowerCase_def lowerChar_def isSpace_def expectedPriceHeader_def priceColumnName_def
  missingColumn_def exampleCsv_def exampleCsvBase_def

theorem parseCSV_one_record_per_row_witness:
  "plainLexer exampleCsv
     = Inr ([''SKU'', ''Actual Price''] # [[''SK1'', ''100.00''], [''SK2'', ''5.50'']])
   \<and> list_all (\<lambda>row. length row = length [''SKU'', ''Actual Price''])
         [[''SK1'', ''100.00''], [''SK2'', ''5.50'']]
   \<and> ''sku'' \<in> set (columns [''SKU'', ''Actual Price''])
   \<and> expectedPriceHeader ''ACTUAL'' \<in> set (columns [''SKU'', ''Actual Price''])
   \<and> (\<exists>i j. i < length [''SKU'', ''Actual Price''] \<and> j < length [''SKU'', ''Actual Price'']
           \<and> columns [''SKU'', ''Actual Price''] ! i = ''sku''
           \<and> columns [''SKU'', ''Actual Price''] ! j = expectedPriceHeader ''ACTUAL''
           \<and> parseCSV plainLexer exampleCsv ''ACTUAL''
               = Inr (map (\<lambda>row. \<lparr>csv_sku = Some (row ! i), csv_price = Some (row ! j)\<rparr>)
                        [[''SK1'', ''100.00''], [''SK2'', ''5.50'']]))"
proof -
  have h1: "plainLexer exampleCsv
     = Inr ([''SKU'', ''Actual Price''] # [[''SK1'', ''100.00''], [''SK2'', ''5.50'']])"
    by (simp add: csv_defs)
  have h2: "list_all (\<lambda>row. length row = length [''SKU'', ''Actual Price''])
         [[''SK1'', ''100.00''], [''SK2'', ''5.50'']]"
    by simp
  have h3: "''sku'' \<in> set (columns [''SKU'', ''Actual Price''])"
    by (simp add: csv_defs)
  have h4: "expectedPriceHeader ''ACTUAL'' \<in> set (columns [''SKU'', ''Actual Price''])"
    by (simp add: csv_defs)
  from parseCSV_one_record_per_row[of plainLexer exampleCsv _ _ "''ACTUAL''", OF h1 h2 h3 h4] h1 h2 h3 h4
  show ?thesis by blast
qed

lemma action_rejects_invalid_csv:
  assumes "fieldError form = None"
    and "form_pricingFormat form = Some format"
    and "form_file form = Some content" and "content \<noteq> []"
    and "parseCSV lexer content format = Inl e"
  shows "action js lexer i form d = (InvalidCSV e, d)"
  using assms by (simp add: action_def Let_def truthy_def orEmpty_def)

text \<open>
  C7, as the code has it. When the text tokenises into a header and at least one data
  row, and the lower-cased, trimmed header lacks \<open>sku\<close> or lacks the price column of
  the requested format (whatever other columns, such as \<open>price\<close>, it has), \<open>parseCSV\<close>
  throws: the validation error that names the missing column (\<open>sku\<close> first) when every
  row has the header's length, and otherwise the library's error for the first row of
  another length, with the header's length and that row's. The edit action catches the
  error and answers 400 with \<open>Invalid CSV:\<close> and the error's message, leaving the
  store as it was.
\<close>

theorem parseCSV_missing_column:
  assumes "lexer content = Inr (header # row # rows)"
    and "''sku'' \<notin> set (columns header) \<or> expectedPriceHeader format \<notin> set (columns header)"
  shows "\<exists>e. parseCSV lexer content format = Inl e
           \<and> (list_all (\<lambda>r. length r = length header) (row # rows) \<longrightarrow>
                e = Error (missingColumn (if ''sku'' \<notin> set (columns header) then ''sku''
                                          else priceColumnName format)))
           \<and> (\<forall>bad. find (\<lambda>r. length r \<noteq> length header) (row # rows) = Some bad \<longrightarrow>
                e = InvalidRecordLength (length header) (length bad))
           \<and> (\<forall>js i form d.
                 fieldError form = None \<and> form_pricingFormat form = Some format
                 \<and> form_file form = Some content \<and> content \<noteq> [] \<longrightarrow>
                 action js lexer i form d = (InvalidCSV e, d))"
proof -
  let ?cols = "columns header"
  let ?wrong = "find (\<lambda>r. length r \<noteq> length header) (row # rows)"
  have len: "length ?cols = length header"
    by (simp add: columns_def)
  have fails: "\<exists>e. parseCSV lexer content format = Inl e
           \<and> (list_all (\<lambda>r. length r = length header) (row # rows) \<longrightarrow>
                e = Error (missingColumn (if ''sku'' \<notin> set ?cols then ''sku''
                                          else priceColumnName format)))
           \<and> (\<forall>bad. ?wrong = Some bad \<longrightarrow> e = InvalidRecordLength (length header) (length bad))"
  proof (cases ?wrong)
    case (Some bad)
    then have "parse lexer content = Inl (InvalidRecordLength (length header) (length bad))"
      using assms(1) by (simp add: parse_def len)
    then have e: "parseCSV lexer content format
                    = Inl (InvalidRecordLength (length header) (length bad))"
      by (simp add: parseCSV_def)
    have "\<not> list_all (\<lambda>r. length r = length header) (row # rows)"
      using find_wrong_length[of "length header" "row # rows"] Some by auto
    with e Some show ?thesis by simp
  next
    case None
    then have recs: "parse lexer content = Inr (to_object ?cols row # map (to_object ?cols) rows)"
      using assms(1) by (simp add: parse_def len Let_def)
    have all: "list_all (\<lambda>r. length r = length header) (row # rows)"
      by (rule find_right_length[OF None])
    show ?thesis
    proof (cases "''sku'' \<in> set ?cols")
      case False
      then have "to_object ?cols row ''sku'' = None" by (rule to_object_absent)
      then have "parseCSV lexer content format = Inl (Error (missingColumn ''sku''))"
        by (simp add: parseCSV_def recs)
      with False None show ?thesis by simp
    next
      case sku: True
      with assms(2) have "expectedPriceHeader format \<notin> set ?cols" by simp
      then have none: "to_object ?cols row (expectedPriceHeader format) = None"
        by (rule to_object_absent)
      have "length row = length ?cols" using all len by simp
      with to_object_index[OF sku] obtain y where "to_object ?cols row ''sku'' = Some y" by auto
      with none have "parseCSV lexer content format
                        = Inl (Error (missingColumn (priceColumnName format)))"
        by (simp add: parseCSV_def recs)
      with sku None show ?thesis by simp
    qed
  qed
  then obtain e where e: "parseCSV lexer content format = Inl e"
    and msg: "list_all (\<lambda>r. length r = length header) (row # rows) \<longrightarrow>
                e = Error (missingColumn (if ''sku'' \<notin> set ?cols then ''sku''
                                          else priceColumnName format))"
    and lib: "\<forall>bad. ?wrong = Some bad \<longrightarrow> e = InvalidRecordLength (length header) (length bad)"
    by blast
  have "\<forall>js i form d.
          fieldError form = None \<and> form_pricingFormat form = Some format
          \<and> form_file form = Some content \<and> content \<noteq> [] \<longrightarrow>
          action js lexer i form d = (InvalidCSV e, d)"
  proof (intro allI impI)
    fix js i form d
    assume a: "fieldError form = None \<and> form_pricingFormat form = Some format
          \<and> form_file form = Some content \<and> content \<noteq> []"
    show "action js lexer i form d = (InvalidCSV e, d)"
      using a e by (intro action_rejects_invalid_csv) simp_all
  qed
  with e msg lib show ?thesis by blast
qed

text \<open>
  Two files with the columns \<open>sku\<close> and \<open>price\<close>, parsed in the \<open>ACTUAL\<close> format:
  one with a well-formed row, which fails with the validation error for
  \<open>Actual Price\<close> and is answered by the action with that error, and one whose row
  has a single cell, which fails with the library's error for lengths 2 and 1.
\<close>

theorem parseCSV_missing_column_witness:
  "plainLexer (''sku,price'' @ [CHR 0x0A] @ ''SK1,100.00'')
     = Inr ([''sku'', ''price''] # [''SK1'', ''100.00''] # [])
   \<and> ''price'' \<in> set (columns [''sku'', ''price''])
   \<and> expectedPriceHeader ''ACTUAL'' \<notin> set (columns [''sku'', ''price''])
   \<and> (\<exists>e. parseCSV plainLexer (''sku,price'' @ [CHR 0x0A] @ ''SK1,100.00'') ''ACTUAL'' = Inl e
           \<and> (list_all (\<lambda>r. length r = length [''sku'', ''price'']) ([''SK1'', ''100.00''] # []) \<longrightarrow>
                e = Error (missingColumn (if ''sku'' \<notin> set (columns [''sku'', ''price'']) then ''sku''
                                          else priceColumnName ''ACTUAL'')))
           \<and> (\<forall>bad. find (\<lambda>r. length r \<noteq> length [''sku'', ''price''])
                          ([''SK1'', ''100.00''] # []) = Some bad \<longrightarrow>
                e = InvalidRecordLength (length [''sku'', ''price'']) (length bad))
           \<and> (\<forall>js i form d.
                 fieldError form = None \<and> form_pricingFormat form = Some ''ACTUAL''
                 \<and> form_file form = Some (''sku,price'' @ [CHR 0x0A] @ ''SK1,100.00'')
                 \<and> ''sku,price'' @ [CHR 0x0A] @ ''SK1,100.00'' \<noteq> [] \<longrightarrow>
                 action js plainLexer i form d = (InvalidCSV e, d)))
   \<and> parseCSV plainLexer (''sku,price'' @ [CHR 0x0A] @ ''SK1,100.00'') ''ACTUAL''
       = Inl (Error (missingColumn ''Actual Price''))
   \<and> action exampleBuiltins plainLexer 1
         (exampleForm\<lparr>form_pricingFormat := Some ''ACTUAL'',
                       form_file := Some (''sku,price'' @ [CHR 0x0A] @ ''SK1,100.00'')\<rparr>)
         (exampleDb ''PENDING'' ''OFFER'' None)
       = (InvalidCSV (Error (missingColumn ''Actual Price'')), exampleDb ''PENDING'' ''OFFER'' None)
   \<and> parseCSV plainLexer (''sku,price'' @ [CHR 0x0A] @ ''SK1'') ''ACTUAL''
       = Inl (InvalidRecordLength 2 1)"
proof -
  have h1: "plainLexer (''sku,price'' @ [CHR 0x0A] @ ''SK1,100.00'')
     = Inr ([''sku'', ''price''] # [''SK1'', ''100.00''] # [])"
    by (simp add: csv_defs)
  have h2: "expectedPriceHeader ''ACTUAL'' \<notin> set (columns [''sku'', ''price''])"
    by (simp add: csv_defs)
  then have h2': "''sku'' \<notin> set (columns [''sku'', ''price''])
        \<or> expectedPriceHeader ''ACTUAL'' \<notin> set (columns [''sku'', ''price''])"
    by blast
  have h3: "''price'' \<in> set (columns [''sku'', ''price''])"
    by (simp add: csv_defs)
  have c1: "parseCSV plainLexer (''sku,price'' @ [CHR 0x0A] @ ''SK1,100.00'') ''ACTUAL''
       = Inl (Error (missingColumn ''Actual Price''))"
    by (simp add: csv_defs)
  have c2: "action exampleBuiltins plainLexer 1
         (exampleForm\<lparr>form_pricingFormat := Some ''ACTUAL'',
                       form_file := Some (''sku,price'' @ [CHR 0x0A] @ ''SK1,100.00'')\<rparr>)
         (exampleDb ''PENDING'' ''OFFER'' None)
       = (InvalidCSV (Error (missingColumn ''Actual Price'')), exampleDb ''PENDING'' ''OFFER'' None)"
    using c1 by (simp add: action_def fieldError_def truthy_def orEmpty_def exampleForm_def Let_def)
  have c3: "parseCSV plainLexer (''sku,price'' @ [CHR 0x0A] @ ''SK1'') ''ACTUAL''
       = Inl (InvalidRecordLength 2 1)"
    by (simp add: csv_defs)
  from parseCSV_missing_column[of plainLexer _ _ _ _ "''ACTUAL''", OF h1 h2'] h1 h2 h3 c1 c2 c3
  show ?thesis by blast
qed

text \<open>
  Without a data row nothing is validated: a file that consists of the header
  \<open>sku,price\<close> parses to the empty list in the \<open>ACTUAL\<close> format, although it has
  no \<open>actual price\<close> column.
\<close>

theorem parseCSV_header_only_counterexample:
  "plainLexer (''sku,price'' @ [CHR 0x0A]) = Inr [[''sku'', ''price'']]
   \<and> expectedPriceHeader ''ACTUAL'' \<notin> set (columns [''sku'', ''price''])
   \<and> parseCSV plainLexer (''sku,price'' @ [CHR 0x0A]) ''ACTUAL'' = Inr []"
  by (simp add: csv_defs)

text \<open>
  C10. A text that tokenises into no line at all, or into a header line only, parses to
  the empty list, whatever the header's columns are and whatever format is requested:
  the columns are checked on the first record only.
\<close>

theorem parseCSV_no_rows:
  "lexer content = Inr [] \<or> (\<exists>header. lexer content = Inr [header])
     \<Longrightarrow> parseCSV lexer content format = Inr []"
  by (auto simp: parseCSV_def parse_def)

theorem parseCSV_no_rows_witness:
  "(plainLexer ''name, price'' = Inr [] \<or> (\<exists>header. plainLexer ''name, price'' = Inr [header]))
   \<and> parseCSV plainLexer ''name, price'' ''BASE'' = Inr []"
proof -
  have h: "plainLexer ''name, price'' = Inr [] \<or> (\<exists>header. plainLexer ''name, price'' = Inr [header])"
    by (simp add: csv_defs)
  from parseCSV_no_rows[of plainLexer "''name, price''" "''BASE''", OF h] h
  show ?thesis by blast
qed


section \<open>Properties of the edit route\<close>

text \<open>
  The rows that \<open>parseCSV\<close> returns have both fields defined, so the nested
  \<open>create\<close> of the edit action is never handed an \<open>undefined\<close> field.
\<close>

lemma parseCSV_defined:
  assumes "parseCSV lexer content format = Inr rows"
  shows "\<forall>row\<in>set rows. csv_sku row \<noteq> None \<and> csv_price row \<noteq> None"
proof (cases "lexer content")
  case (Inl e)
  with assms show ?thesis by (simp add: parseCSV_def parse_def)
next
  case (Inr ls)
  show ?thesis
  proof (cases ls)
    case Nil
    with Inr assms show ?thesis by (auto simp: parseCSV_def parse_def)
  next
    case (Cons header rws)
    let ?cols = "columns header"
    let ?e = "expectedPriceHeader format"
    have none: "find (\<lambda>row. length row \<noteq> length ?cols) rws = None"
      using assms Inr Cons by (auto simp: parseCSV_def parse_def Let_def split: option.splits)
    then have recs: "parse lexer content = Inr (map (to_object ?cols) rws)"
      using Inr Cons by (simp add: parse_def)
    have ok: "list_all (\<lambda>row. length row = length ?cols) rws"
      by (rule find_right_length[OF none])
    show ?thesis
    proof (cases rws)
      case Nil
      with recs assms show ?thesis by (auto simp: parseCSV_def)
    next
      case rw: (Cons r rs)
      have first: "to_object ?cols r ''sku'' \<noteq> None" "to_object ?cols r ?e \<noteq> None"
        and rows: "rows = map (\<lambda>record. \<lparr>csv_sku = record ''sku'', csv_price = record ?e\<rparr>)
                            (map (to_object ?cols) rws)"
        using assms recs rw by (auto simp: parseCSV_def split: if_splits)
      have present: "k \<in> set ?cols" if "to_object ?cols r k \<noteq> None" for k
      proof (rule ccontr)
        assume "k \<notin> set ?cols"
        then have "to_object ?cols r k = None" by (rule to_object_absent)
        with that show False by simp
      qed
      have "''sku'' \<in> set ?cols" "?e \<in> set ?cols"
        using first by (simp_all add: present)
      from to_object_index[OF this(1)] to_object_index[OF this(2)]
      have "\<forall>cells. length cells = length ?cols \<longrightarrow>
              to_object ?cols cells ''sku'' \<noteq> None \<and> to_object ?cols cells ?e \<noteq> None"
        by auto
      then show ?thesis
        using ok rows by (auto simp: list_all_iff)
    qed
  qed
qed

text \<open>The equations that run the edit route on the example.\<close>

lemmas edit_defs = action_def fieldError_def loader_def truthy_def orEmpty_def itemCreate_def
  itemOfferPrice_def replaceItems_def exampleForm_def findUnique_def
  exampleDb_def exampleItems_def exampleOffer_def exampleBuiltins_def

text \<open>
  C8. The loader of the edit page refuses an offer that is not \<open>PENDING\<close>; the
  action that performs the edit never reads the status. On the example store, whose
  offer 1 is \<open>ACTIVE\<close>, the loader answers 400, while the action redirects after it
  has rewritten the offer's fields and replaced its two items by the uploaded one.
\<close>

theorem action_edits_active_offer:
  "loader 1 (exampleDb ''ACTIVE'' ''OFFER'' (Some 80)) = Response 400 ''Offer cannot be edited''
   \<and> findUnique (exampleDb ''ACTIVE'' ''OFFER'' (Some 80)) 1
       = Some (exampleOffer ''ACTIVE'' ''OFFER'', take 2 (exampleItems (Some 80)))
   \<and> fst (action exampleBuiltins plainLexer 1 exampleForm (exampleDb ''ACTIVE'' ''OFFER'' (Some 80)))
       = Redirect 1
   \<and> findUnique (snd (action exampleBuiltins plainLexer 1 exampleForm
                         (exampleDb ''ACTIVE'' ''OFFER'' (Some 80)))) 1
       = Some (\<lparr>title = Some ''Changed'', vendor = ''Acme'', startDate = None, endDate = None,
                tags = ''new'', status = ''ACTIVE'', priceType = ''REGULAR'',
                pricingFormat = ''BASE'', markup = Some (6 / 5), discount = Some 10\<rparr>,
               [\<lparr>item_id = 4, offerId = 1, sku = ''SK2'', offerPrice = 54,
                 originalPrice = None\<rparr>])"
  by (simp add: edit_defs csv_defs)


section \<open>Properties of the price synchroniser\<close>

lemma touched_refl: "list_all2 (touched A) xs xs"
  by (simp add: list_all2_refl touched_def)

lemma touched_trans:
  assumes "list_all2 (touched A) xs ys" and "list_all2 (touched B) ys zs"
  shows "list_all2 (touched (A \<union> B)) xs zs"
proof (rule list_all2_trans[OF _ assms])
  fix a b c
  assume "touched A a b" and "touched B b c"
  then show "touched (A \<union> B) a c"
    by (auto simp: touched_def)
qed

lemma offerItem_update_touched:
  "offerItem_update i p d = Some d' \<Longrightarrow>
     list_all2 (touched {i}) (offerItems d) (offerItems d') \<and> offers d' = offers d
     \<and> nextItemId d' = nextItemId d
     \<and> (\<forall>r\<in>set (offerItems d'). item_id r = i \<longrightarrow> originalPrice r = Some p)"
  by (auto simp: offerItem_update_def list_all2_map2 touched_def split: if_splits intro!: list_all2_refl)

lemma graphql_calls:
  "graphql admin i req w = (rep, w') \<Longrightarrow> calls w' = calls w @ [(i, req, rep)] \<and> db w' = db w"
  by (auto simp: graphql_def split: prod.splits)

lemma applyItem_frame:
  assumes "applyItem js admin offer offerTags item w = (out, w')"
  shows "\<exists>new. calls w' = calls w @ new \<and> (\<forall>c\<in>set new. fst c = item_id item)"
    and "offers (db w') = offers (db w)"
    and "nextItemId (db w') = nextItemId (db w)"
    and "list_all2 (touched {item_id item}) (offerItems (db w)) (offerItems (db w'))"
  using assms
  by (auto simp: applyItem_def Let_def touched_refl dest!: graphql_calls offerItem_update_touched
      split: prod.splits reply.splits option.splits if_splits)


lemma applyItem_recorded:
  assumes "applyItem js admin offer offerTags item w = (Returned, w')"
    and "calls w' = calls w @ new"
    and "(item_id item, ProductVariants (sku item), Variant (Some v)) \<in> set new"
    and "r \<in> set (offerItems (db w'))" and "item_id r = item_id item"
  shows "originalPrice r =
           Some (if priceType offer = ''REGULAR'' then offerPrice item
                 else parseFloat js (variant_price v))"
  using assms
  by (auto simp: applyItem_def Let_def dest!: graphql_calls offerItem_update_touched
      split: prod.splits reply.splits option.splits if_splits)

lemma forEach_invariant:
  assumes "forEach body xs w = (out, w')" and "I w"
    and "\<And>x s out1 s1. x \<in> set xs \<Longrightarrow> I s \<Longrightarrow> body x s = (out1, s1) \<Longrightarrow> I s1"
  shows "I w'"
  using assms
proof (induction xs arbitrary: w)
  case Nil
  then show ?case by simp
next
  case (Cons x xs)
  obtain out1 w1 where b: "body x w = (out1, w1)" by (cases "body x w")
  have I1: "I w1" using Cons.prems(2,3) b by auto
  show ?case
  proof (cases out1)
    case Returned
    with b Cons.prems(1) have "forEach body xs w1 = (out, w')" by simp
    then show ?thesis using I1 Cons.prems(3) by (intro Cons.IH) auto
  next
    case Threw
    with b Cons.prems(1) have "w' = w1" by simp
    with I1 show ?thesis by simp
  qed
qed

lemma touched_unchanged:
  "list_all2 (touched A) xs ys \<Longrightarrow> r \<in> set ys \<Longrightarrow> item_id r \<notin> A \<Longrightarrow> r \<in> set xs"
  by (induction rule: list_all2_induct) (auto simp: touched_def)

lemma forEach_apply_frame:
  assumes "forEach (applyItem js admin offer offerTags) items w = (out, w')"
  shows "(\<exists>new. calls w' = calls w @ new \<and> (\<forall>c\<in>set new. fst c \<in> item_id ` set items))
         \<and> offers (db w') = offers (db w) \<and> nextItemId (db w') = nextItemId (db w)
         \<and> list_all2 (touched (item_id ` set items)) (offerItems (db w)) (offerItems (db w'))"
proof (rule forEach_invariant[OF assms])
  show "(\<exists>new. calls w = calls w @ new \<and> (\<forall>c\<in>set new. fst c \<in> item_id ` set items))
         \<and> offers (db w) = offers (db w) \<and> nextItemId (db w) = nextItemId (db w)
         \<and> list_all2 (touched (item_id ` set items)) (offerItems (db w)) (offerItems (db w))"
    by (simp add: touched_refl)
next
  fix x s out1 s1
  assume x: "x \<in> set items"
    and I: "(\<exists>new. calls s = calls w @ new \<and> (\<forall>c\<in>set new. fst c \<in> item_id ` set items))
         \<and> offers (db s) = offers (db w) \<and> nextItemId (db s) = nextItemId (db w)
         \<and> list_all2 (touched (item_id ` set items)) (offerItems (db w)) (offerItems (db s))"
    and b: "applyItem js admin offer offerTags x s = (out1, s1)"
  from I obtain new where new: "calls s = calls w @ new" "\<forall>c\<in>set new. fst c \<in> item_id ` set items"
    by blast
  from applyItem_frame(1)[OF b] obtain n1 where n1: "calls s1 = calls s @ n1" "\<forall>c\<in>set n1. fst c = item_id x"
    by blast
  have "calls s1 = calls w @ (new @ n1)" "\<forall>c\<in>set (new @ n1). fst c \<in> item_id ` set items"
    using new n1 x by auto
  then have c: "\<exists>new. calls s1 = calls w @ new \<and> (\<forall>c\<in>set new. fst c \<in> item_id ` set items)"
    by blast
  have "list_all2 (touched (item_id ` set items \<union> {item_id x})) (offerItems (db w)) (offerItems (db s1))"
    using I applyItem_frame(4)[OF b] by (blast intro: touched_trans)
  moreover have "item_id ` set items \<union> {item_id x} = item_id ` set items"
    using x by auto
  ultimately have t: "list_all2 (touched (item_id ` set items)) (offerItems (db w)) (offerItems (db s1))"
    by simp
  show "(\<exists>new. calls s1 = calls w @ new \<and> (\<forall>c\<in>set new. fst c \<in> item_id ` set items))
         \<and> offers (db s1) = offers (db w) \<and> nextItemId (db s1) = nextItemId (db w)
         \<and> list_all2 (touched (item_id ` set items)) (offerItems (db w)) (offerItems (db s1))"
    using c t I applyItem_frame(2,3)[OF b] by simp
qed

lemma forEach_apply_recorded:
  assumes "forEach (applyItem js admin offer offerTags) items w = (Returned, w')"
    and "distinct (map item_id items)"
    and "calls w' = calls w @ new"
    and "item \<in> set items"
    and "(item_id item, ProductVariants (sku item), Variant (Some v)) \<in> set new"
    and "r \<in> set (offerItems (db w'))" and "item_id r = item_id item"
  shows "originalPrice r =
           Some (if priceType offer = ''REGULAR'' then offerPrice item
                 else parseFloat js (variant_price v))"
  using assms
proof (induction items arbitrary: w new)
  case Nil
  then show ?case by simp
next
  case (Cons x xs)
  let ?body = "applyItem js admin offer offerTags"
  obtain out1 w1 where b: "?body x w = (out1, w1)" by (cases "?body x w")
  with Cons.prems(1) have out1: "out1 = Returned" and rest: "forEach ?body xs w1 = (Returned, w')"
    by (cases out1; simp)+
  from applyItem_frame(1)[OF b] obtain n1 where n1: "calls w1 = calls w @ n1" "\<forall>c\<in>set n1. fst c = item_id x"
    by blast
  from forEach_apply_frame[OF rest] obtain n2 where n2: "calls w' = calls w1 @ n2"
      "\<forall>c\<in>set n2. fst c \<in> item_id ` set xs"
    and t2: "list_all2 (touched (item_id ` set xs)) (offerItems (db w1)) (offerItems (db w'))"
    by blast
  have new: "new = n1 @ n2" using Cons.prems(3) n1 n2 by simp
  have xnotin: "item_id x \<notin> item_id ` set xs" using Cons.prems(2) by auto
  show ?case
  proof (cases "item_id item = item_id x")
    case True
    have "item \<notin> set xs" using True xnotin by (metis imageI)
    with Cons.prems(4) have ix: "item = x" by simp
    have "(item_id item, ProductVariants (sku item), Variant (Some v)) \<notin> set n2"
      using n2(2) True xnotin by force
    with Cons.prems(5) new have in1: "(item_id x, ProductVariants (sku x), Variant (Some v)) \<in> set n1"
      using ix by simp
    have "r \<in> set (offerItems (db w1))"
      using touched_unchanged[OF t2 Cons.prems(6)] Cons.prems(7) True xnotin by simp
    from applyItem_recorded[OF b[unfolded out1] n1(1) in1 this] Cons.prems(7) ix
    show ?thesis by simp
  next
    case False
    with Cons.prems(4) have inxs: "item \<in> set xs" by auto
    have "(item_id item, ProductVariants (sku item), Variant (Some v)) \<notin> set n1"
      using n1(2) False by force
    with Cons.prems(5) new have in2: "(item_id item, ProductVariants (sku item), Variant (Some v)) \<in> set n2"
      by simp
    from Cons.prems(2) have d: "distinct (map item_id xs)" by simp
    show ?thesis
      by (rule Cons.IH[OF rest d n2(1) inxs in2 Cons.prems(6,7)])
  qed
qed

lemma applyItem_order:
  assumes "applyItem js admin offer offerTags item w = (Returned, w')"
    and "calls w' = calls w @ new"
    and "(item_id item, ProductVariants (sku item), Variant (Some v)) \<in> set new"
  shows "\<exists>rep post. new = (item_id item, ProductVariants (sku item), Variant (Some v))
           # (item_id item, ProductVariantsBulkUpdate (product_id v) (variant_id v)
                (toString js (offerPrice item)), rep) # post"
  using assms
  by (auto simp: applyItem_def Let_def dest!: graphql_calls offerItem_update_touched
      split: prod.splits reply.splits option.splits if_splits)

lemma forEach_log:
  assumes run: "forEach body xs w = (out, w')"
    and frame: "\<And>x s out1 s1. body x s = (out1, s1) \<Longrightarrow>
                  \<exists>n. lg s1 = lg s @ n \<and> (\<forall>c\<in>set n. tag c = key x)"
  shows "\<exists>m. lg w' = lg w @ m \<and> (\<forall>c\<in>set m. tag c \<in> key ` set xs)"
proof (rule forEach_invariant[OF run])
  show "\<exists>m. lg w = lg w @ m \<and> (\<forall>c\<in>set m. tag c \<in> key ` set xs)"
    by simp
next
  fix x s out1 s1
  assume x: "x \<in> set xs"
    and I: "\<exists>m. lg s = lg w @ m \<and> (\<forall>c\<in>set m. tag c \<in> key ` set xs)"
    and b: "body x s = (out1, s1)"
  from I obtain m where m: "lg s = lg w @ m" "\<forall>c\<in>set m. tag c \<in> key ` set xs" by blast
  from frame[OF b] obtain n where n: "lg s1 = lg s @ n" "\<forall>c\<in>set n. tag c = key x" by blast
  have "lg s1 = lg w @ (m @ n)" "\<forall>c\<in>set (m @ n). tag c \<in> key ` set xs"
    using m n x by auto
  then show "\<exists>m. lg s1 = lg w @ m \<and> (\<forall>c\<in>set m. tag c \<in> key ` set xs)"
    by blast
qed

lemma forEach_segment:
  assumes run: "forEach body xs w = (Returned, w')"
    and frame: "\<And>x s out1 s1. body x s = (out1, s1) \<Longrightarrow>
                  \<exists>n. lg s1 = lg s @ n \<and> (\<forall>c\<in>set n. tag c = key x)"
    and dist: "distinct (map key xs)"
    and x: "x \<in> set xs"
  shows "\<exists>s s1 pre n post. body x s = (Returned, s1) \<and> lg s1 = lg s @ n
           \<and> lg w' = lg w @ pre @ n @ post
           \<and> (\<forall>c\<in>set pre \<union> set post. tag c \<noteq> key x)"
  using run dist x
proof (induction xs arbitrary: w)
  case Nil
  then show ?case by simp
next
  case (Cons y ys)
  obtain out1 w1 where b: "body y w = (out1, w1)" by (cases "body y w")
  with Cons.prems(1) have out1: "out1 = Returned" and rest: "forEach body ys w1 = (Returned, w')"
    by (cases out1; simp)+
  from frame[OF b] obtain n1 where n1: "lg w1 = lg w @ n1" "\<forall>c\<in>set n1. tag c = key y"
    by blast
  have ynotin: "key y \<notin> key ` set ys" using Cons.prems(2) by auto
  show ?case
  proof (cases "key x = key y")
    case True
    have "x \<notin> set ys" using True ynotin by (metis imageI)
    with Cons.prems(3) have xy: "x = y" by simp
    have "\<exists>m. lg w' = lg w1 @ m \<and> (\<forall>c\<in>set m. tag c \<in> key ` set ys)"
      by (rule forEach_log[where lg = lg and tag = tag and key = key, OF rest]) (rule frame)
    then obtain m where m: "lg w' = lg w1 @ m" "\<forall>c\<in>set m. tag c \<in> key ` set ys"
      by blast
    have "body x w = (Returned, w1)" using b out1 xy by simp
    moreover have "lg w' = lg w @ [] @ n1 @ m" using m n1 by simp
    moreover have "\<forall>c\<in>set [] \<union> set m. tag c \<noteq> key x"
    proof (intro ballI)
      fix c
      assume "c \<in> set [] \<union> set m"
      then have "tag c \<in> key ` set ys" using m(2) by simp
      then show "tag c \<noteq> key x" using ynotin xy by metis
    qed
    ultimately show ?thesis using n1(1) by blast
  next
    case False
    with Cons.prems(3) have "x \<in> set ys" by auto
    moreover from Cons.prems(2) have "distinct (map key ys)" by simp
    ultimately obtain s s1 pre n post where
      st: "body x s = (Returned, s1)" "lg s1 = lg s @ n" and
      l: "lg w' = lg w1 @ pre @ n @ post" and
      t: "\<forall>c\<in>set pre \<union> set post. tag c \<noteq> key x"
      using Cons.IH[OF rest] by blast
    have "lg w' = lg w @ (n1 @ pre) @ n @ post" using l n1 by simp
    moreover have "\<forall>c\<in>set (n1 @ pre) \<union> set post. tag c \<noteq> key x"
      using t n1(2) False by auto
    ultimately show ?thesis using st by blast
  qed
qed

lemma applyItem_log:
  "applyItem js admin offer offerTags item s = (out1, s1) \<Longrightarrow>
     \<exists>n. calls s1 = calls s @ n \<and> (\<forall>c\<in>set n. fst c = item_id item)"
  by (rule applyItem_frame(1))

lemma forEach_apply_order:
  assumes "forEach (applyItem js admin offer offerTags) items w = (Returned, w')"
    and "distinct (map item_id items)"
    and "calls w' = calls w @ new"
    and "item \<in> set items"
    and "(item_id item, ProductVariants (sku item), Variant (Some v)) \<in> set new"
  shows "\<exists>pre rep post. new = pre @ (item_id item, ProductVariants (sku item), Variant (Some v))
           # (item_id item, ProductVariantsBulkUpdate (product_id v) (variant_id v)
                (toString js (offerPrice item)), rep) # post"
proof -
  let ?L = "(item_id item, ProductVariants (sku item), Variant (Some v))"
  have "\<exists>s s1 pre n post. applyItem js admin offer offerTags item s = (Returned, s1)
          \<and> calls s1 = calls s @ n \<and> calls w' = calls w @ pre @ n @ post
          \<and> (\<forall>c\<in>set pre \<union> set post. fst c \<noteq> item_id item)"
    by (rule forEach_segment[where lg = calls and tag = fst and key = item_id, OF assms(1) _ assms(2,4)])
      (rule applyItem_log)
  then obtain s s1 pre n post where
    st: "applyItem js admin offer offerTags item s = (Returned, s1)" "calls s1 = calls s @ n" and
    l: "calls w' = calls w @ pre @ n @ post" and
    t: "\<forall>c\<in>set pre \<union> set post. fst c \<noteq> item_id item"
    by blast
  have new: "new = pre @ n @ post" using l assms(3) by simp
  have "?L \<notin> set pre \<union> set post" using t by force
  with assms(5) new have "?L \<in> set n" by auto
  from applyItem_order[OF st this] obtain rep post' where
    "n = ?L # (item_id item, ProductVariantsBulkUpdate (product_id v) (variant_id v)
                (toString js (offerPrice item)), rep) # post'"
    by blast
  then have "new = pre @ ?L # (item_id item, ProductVariantsBulkUpdate (product_id v) (variant_id v)
                (toString js (offerPrice item)), rep) # (post' @ post)"
    using new by simp
  then show ?thesis by blast
qed

lemma list_all2_set1:
  "list_all2 P xs ys \<Longrightarrow> x \<in> set xs \<Longrightarrow> \<exists>y\<in>set ys. P x y"
  by (induction rule: list_all2_induct) auto

lemma touched_filter:
  "list_all2 (touched A) xs ys \<Longrightarrow>
     list_all2 (touched A) (filter (\<lambda>r. offerId r = i) xs) (filter (\<lambda>r. offerId r = i) ys)"
  by (induction rule: list_all2_induct) (auto simp: touched_def)

lemma findUnique_status:
  assumes "offers d i = Some offer"
  shows "offer_update_status i s d = Some (d\<lparr>offers := (offers d)(i \<mapsto> offer\<lparr>status := s\<rparr>)\<rparr>)"
    and "findUnique (d\<lparr>offers := (offers d)(i \<mapsto> offer\<lparr>status := s\<rparr>)\<rparr>) i
           = Some (offer\<lparr>status := s\<rparr>, filter (\<lambda>r. offerId r = i) (offerItems d))"
  using assms by (simp_all add: offer_update_status_def findUnique_def)

lemma applyOfferPrices_run:
  assumes f: "findUnique (db w) i = Some (offer, items)"
    and p: "status offer = ''PENDING''"
    and r: "applyOfferPrices js admin i w = (Returned, w')"
  shows "\<exists>w1. forEach (applyItem js admin offer (parseTags (tags offer))) items w = (Returned, w1)
           \<and> calls w' = calls w1 \<and> remote w' = remote w1
           \<and> db w' = (db w1)\<lparr>offers := (offers (db w1))(i \<mapsto> offer\<lparr>status := ''ACTIVE''\<rparr>)\<rparr>"
proof -
  let ?body = "applyItem js admin offer (parseTags (tags offer))"
  obtain out1 w1 where l: "forEach ?body items w = (out1, w1)" by (cases "forEach ?body items w")
  from f have o: "offers (db w) i = Some offer"
    by (auto simp: findUnique_def split: option.splits)
  have o1: "offers (db w1) i = Some offer"
    using forEach_apply_frame[OF l] o by simp
  have out1: "out1 = Returned"
    using r f p l by (cases out1) (simp_all add: applyOfferPrices_def)
  have "w' = w1\<lparr>db := (db w1)\<lparr>offers := (offers (db w1))(i \<mapsto> offer\<lparr>status := ''ACTIVE''\<rparr>)\<rparr>\<rparr>"
    using r f p l out1 findUnique_status(1)[OF o1] by (simp add: applyOfferPrices_def)
  then show ?thesis using l out1 by simp
qed

lemma applyOfferPrices_recorded:
  assumes f: "findUnique (db w) i = Some (offer, items)"
    and p: "status offer = ''PENDING''"
    and d: "distinct (map item_id (offerItems (db w)))"
    and r: "applyOfferPrices js admin i w = (Returned, w')"
  shows "\<exists>items' new. findUnique (db w') i = Some (offer\<lparr>status := ''ACTIVE''\<rparr>, items')
           \<and> calls w' = calls w @ new
           \<and> (\<forall>item\<in>set items. \<forall>v.
                 (item_id item, ProductVariants (sku item), Variant (Some v)) \<in> set new \<longrightarrow>
                   item\<lparr>originalPrice :=
                          Some (if priceType offer = ''REGULAR'' then offerPrice item
                                else parseFloat js (variant_price v))\<rparr> \<in> set items'
                   \<and> (\<exists>pre rep post. new =
                          pre @ (item_id item, ProductVariants (sku item), Variant (Some v))
                          # (item_id item, ProductVariantsBulkUpdate (product_id v) (variant_id v)
                               (toString js (offerPrice item)), rep) # post))"
proof -
  let ?body = "applyItem js admin offer (parseTags (tags offer))"
  from applyOfferPrices_run[OF f p r] obtain w1 where
    l: "forEach ?body items w = (Returned, w1)" and c: "calls w' = calls w1"
    and dbw': "db w' = (db w1)\<lparr>offers := (offers (db w1))(i \<mapsto> offer\<lparr>status := ''ACTIVE''\<rparr>)\<rparr>"
    by blast
  from f have o: "offers (db w) i = Some offer"
    and items: "items = filter (\<lambda>r. offerId r = i) (offerItems (db w))"
    by (auto simp: findUnique_def split: option.splits)
  from forEach_apply_frame[OF l] obtain new where new: "calls w1 = calls w @ new"
    and o1: "offers (db w1) = offers (db w)"
    and t: "list_all2 (touched (item_id ` set items)) (offerItems (db w)) (offerItems (db w1))"
    by blast
  let ?items' = "filter (\<lambda>r. offerId r = i) (offerItems (db w1))"
  have fu: "findUnique (db w') i = Some (offer\<lparr>status := ''ACTIVE''\<rparr>, ?items')"
    using findUnique_status(2)[of "db w1" i offer "''ACTIVE''"] o o1 dbw' by simp
  have di: "distinct (map item_id items)"
    using d items by (simp add: distinct_map_filter)
  have t': "list_all2 (touched (item_id ` set items)) items ?items'"
    using touched_filter[OF t] items by simp
  have "\<forall>item\<in>set items. \<forall>v.
          (item_id item, ProductVariants (sku item), Variant (Some v)) \<in> set new \<longrightarrow>
            item\<lparr>originalPrice :=
                   Some (if priceType offer = ''REGULAR'' then offerPrice item
                         else parseFloat js (variant_price v))\<rparr> \<in> set ?items'
            \<and> (\<exists>pre rep post. new =
                   pre @ (item_id item, ProductVariants (sku item), Variant (Some v))
                   # (item_id item, ProductVariantsBulkUpdate (product_id v) (variant_id v)
                        (toString js (offerPrice item)), rep) # post)"
  proof (intro ballI allI impI)
    fix item v
    assume it: "item \<in> set items"
      and L: "(item_id item, ProductVariants (sku item), Variant (Some v)) \<in> set new"
    let ?X = "if priceType offer = ''REGULAR'' then offerPrice item
              else parseFloat js (variant_price v)"
    from list_all2_set1[OF t' it] obtain r' where r': "r' \<in> set ?items'"
      and tr: "touched (item_id ` set items) item r'"
      by blast
    have id: "item_id r' = item_id item"
      using tr by (auto simp: touched_def)
    have "r' \<in> set (offerItems (db w1))" using r' by simp
    from forEach_apply_recorded[OF l di new it L this id]
    have "originalPrice r' = Some ?X" .
    then have "r' = item\<lparr>originalPrice := Some ?X\<rparr>"
      using tr by (auto simp: touched_def)
    with r' have a: "item\<lparr>originalPrice := Some ?X\<rparr> \<in> set ?items'" by simp
    from forEach_apply_order[OF l di new it L] a
    show "item\<lparr>originalPrice := Some ?X\<rparr> \<in> set ?items'
            \<and> (\<exists>pre rep post. new =
                   pre @ (item_id item, ProductVariants (sku item), Variant (Some v))
                   # (item_id item, ProductVariantsBulkUpdate (product_id v) (variant_id v)
                        (toString js (offerPrice item)), rep) # post)"
      by blast
  qed
  with fu new c show ?thesis by auto
qed







lemma newSet_fold_set:
  "set (fold (\<lambda>x acc. if x \<in> set acc then acc else acc @ [x]) xs acc) = set acc \<union> set xs"
  by (induction xs arbitrary: acc) auto

lemma newSet_fold_distinct:
  "distinct acc \<Longrightarrow> distinct (fold (\<lambda>x acc. if x \<in> set acc then acc else acc @ [x]) xs acc)"
  by (induction xs arbitrary: acc) auto

lemma newSet_fold_subset:
  "set xs \<subseteq> set acc \<Longrightarrow> fold (\<lambda>x acc. if x \<in> set acc then acc else acc @ [x]) xs acc = acc"
  by (induction xs arbitrary: acc) auto

lemma newSet_fold_fresh:
  "distinct (acc @ xs) \<Longrightarrow> fold (\<lambda>x acc. if x \<in> set acc then acc else acc @ [x]) xs acc = acc @ xs"
  by (induction xs arbitrary: acc) auto

lemma newSet_set: "set (newSet xs) = set xs"
  by (simp add: newSet_def newSet_fold_set)

lemma newSet_distinct: "distinct (newSet xs)"
  by (simp add: newSet_def newSet_fold_distinct)

lemma newSet_of_distinct: "distinct xs \<Longrightarrow> newSet xs = xs"
  using newSet_fold_fresh[of "[]" xs] by (simp add: newSet_def)

lemma mergeTags_idem: "mergeTags (mergeTags cur ts) ts = mergeTags cur ts"
proof -
  let ?f = "\<lambda>x acc. if x \<in> set acc then acc else acc @ [x]"
  let ?m = "newSet (cur @ ts)"
  have "newSet (?m @ ts) = fold ?f ts (fold ?f ?m [])"
    by (simp add: newSet_def)
  also have "fold ?f ?m [] = ?m"
    using newSet_of_distinct[OF newSet_distinct, of "cur @ ts"] by (simp add: newSet_def)
  also have "fold ?f ts ?m = ?m"
    by (rule newSet_fold_subset) (simp add: newSet_set)
  finally show ?thesis by (simp add: mergeTags_def)
qed

lemma lookups_append: "lookups (xs @ ys) = lookups xs @ lookups ys"
  by (induction xs rule: lookups.induct) auto

lemma applyItem_lookups:
  assumes "applyItem js admin offer offerTags item w = (Returned, w')"
    and "calls w' = calls w @ new"
  shows "lookups new = [(item_id item, sku item)]"
  using assms
  by (auto simp: applyItem_def Let_def dest!: graphql_calls offerItem_update_touched
      split: prod.splits reply.splits option.splits if_splits)

lemma forEach_apply_lookups:
  assumes "forEach (applyItem js admin offer offerTags) items w = (Returned, w')"
    and "calls w' = calls w @ new"
  shows "lookups new = map (\<lambda>item. (item_id item, sku item)) items"
  using assms
proof (induction items arbitrary: w new)
  case Nil
  then show ?case by simp
next
  case (Cons x xs)
  let ?body = "applyItem js admin offer offerTags"
  obtain out1 w1 where b: "?body x w = (out1, w1)" by (cases "?body x w")
  with Cons.prems(1) have out1: "out1 = Returned" and rest: "forEach ?body xs w1 = (Returned, w')"
    by (cases out1; simp)+
  from applyItem_frame(1)[OF b] obtain n1 where n1: "calls w1 = calls w @ n1" by blast
  from forEach_apply_frame[OF rest] obtain n2 where n2: "calls w' = calls w1 @ n2" by blast
  have new: "new = n1 @ n2" using Cons.prems(2) n1 n2 by simp
  have "lookups n1 = [(item_id x, sku x)]"
    by (rule applyItem_lookups[OF b[unfolded out1] n1])
  moreover have "lookups n2 = map (\<lambda>item. (item_id item, sku item)) xs"
    by (rule Cons.IH[OF rest n2])
  ultimately show ?case by (simp add: new lookups_append)
qed

lemma applyItem_mutations:
  assumes "applyItem js admin offer offerTags item w = (out, w')"
  shows "\<exists>n. calls w' = calls w @ n \<and>
           (\<forall>c\<in>set n. fst c = item_id item
              \<and> (\<forall>pid vid pr. fst (snd c) = ProductVariantsBulkUpdate pid vid pr \<longrightarrow>
                    pr = toString js (offerPrice item))
              \<and> (\<forall>pid ts. fst (snd c) = ProductUpdate pid ts \<longrightarrow>
                    mergeTags ts offerTags = ts))"
  using assms
  by (auto simp: applyItem_def Let_def mergeTags_idem dest!: graphql_calls offerItem_update_touched
      split: prod.splits reply.splits option.splits if_splits)

lemma forEach_log_all:
  assumes run: "forEach body xs w = (out, w')"
    and frame: "\<And>x s out1 s1. body x s = (out1, s1) \<Longrightarrow>
                  \<exists>n. lg s1 = lg s @ n \<and> (\<forall>c\<in>set n. Q x c)"
  shows "\<exists>m. lg w' = lg w @ m \<and> (\<forall>c\<in>set m. \<exists>x\<in>set xs. Q x c)"
proof (rule forEach_invariant[OF run])
  show "\<exists>m. lg w = lg w @ m \<and> (\<forall>c\<in>set m. \<exists>x\<in>set xs. Q x c)"
    by simp
next
  fix x s out1 s1
  assume x: "x \<in> set xs"
    and I: "\<exists>m. lg s = lg w @ m \<and> (\<forall>c\<in>set m. \<exists>x\<in>set xs. Q x c)"
    and b: "body x s = (out1, s1)"
  from I obtain m where m: "lg s = lg w @ m" "\<forall>c\<in>set m. \<exists>x\<in>set xs. Q x c" by blast
  from frame[OF b] obtain n where n: "lg s1 = lg s @ n" "\<forall>c\<in>set n. Q x c" by blast
  have "lg s1 = lg w @ (m @ n)" "\<forall>c\<in>set (m @ n). \<exists>x\<in>set xs. Q x c"
    using m n x by auto
  then show "\<exists>m. lg s1 = lg w @ m \<and> (\<forall>c\<in>set m. \<exists>x\<in>set xs. Q x c)"
    by blast
qed

lemma forEach_apply_mutations:
  assumes "forEach (applyItem js admin offer offerTags) items w = (out, w')"
  shows "\<exists>n. calls w' = calls w @ n \<and>
           (\<forall>c\<in>set n. \<exists>item\<in>set items. fst c = item_id item
              \<and> (\<forall>pid vid pr. fst (snd c) = ProductVariantsBulkUpdate pid vid pr \<longrightarrow>
                    pr = toString js (offerPrice item))
              \<and> (\<forall>pid ts. fst (snd c) = ProductUpdate pid ts \<longrightarrow>
                    mergeTags ts offerTags = ts))"
  by (rule forEach_log_all[where lg = calls, OF assms]) (rule applyItem_mutations)

lemma touched_maps:
  "list_all2 (touched A) xs ys \<Longrightarrow>
     map item_id ys = map item_id xs \<and> map sku ys = map sku xs
     \<and> map offerPrice ys = map offerPrice xs"
  by (induction rule: list_all2_induct) (auto simp: touched_def)

lemma applyOfferPrices_crash:
  assumes f: "findUnique (db w) i = Some (offer, items)"
    and p: "status offer = ''PENDING''"
    and r: "applyOfferPrices js admin i w = (Threw, w1)"
  shows "forEach (applyItem js admin offer (parseTags (tags offer))) items w = (Threw, w1)"
proof -
  let ?body = "applyItem js admin offer (parseTags (tags offer))"
  obtain out1 w1' where l: "forEach ?body items w = (out1, w1')" by (cases "forEach ?body items w")
  from f have o: "offers (db w) i = Some offer"
    by (auto simp: findUnique_def split: option.splits)
  have o1: "offers (db w1') i = Some offer"
    using forEach_apply_frame[OF l] o by simp
  show ?thesis
  proof (cases out1)
    case Returned
    then have False
      using r f p l findUnique_status(1)[OF o1] by (simp add: applyOfferPrices_def)
    then show ?thesis ..
  next
    case Threw
    then show ?thesis using r f p l by (simp add: applyOfferPrices_def)
  qed
qed

lemma map_pair_zip: "map (\<lambda>x. (f x, g x)) xs = zip (map f xs) (map g xs)"
  by (induction xs) auto

lemma list_all2_set2:
  "list_all2 P xs ys \<Longrightarrow> y \<in> set ys \<Longrightarrow> \<exists>x\<in>set xs. P x y"
  by (induction rule: list_all2_induct) auto

lemma applyItem_reply:
  assumes "applyItem js admin offer offerTags item w = (Returned, w')"
    and "calls w' = calls w @ n"
  shows "\<exists>vo. (item_id item, ProductVariants (sku item), Variant vo) \<in> set n"
  using assms
  by (auto simp: applyItem_def Let_def dest!: graphql_calls offerItem_update_touched
      split: prod.splits reply.splits option.splits if_splits)

lemma applyItem_unmatched:
  assumes "applyItem js admin offer offerTags item w = (Returned, w')"
    and "calls w' = calls w @ n"
    and "(item_id item, ProductVariants (sku item), Variant None) \<in> set n"
  shows "db w' = db w"
  using assms
  by (auto simp: applyItem_def Let_def dest!: graphql_calls offerItem_update_touched
      split: prod.splits reply.splits option.splits if_splits)

lemma forEach_apply_reply:
  assumes "forEach (applyItem js admin offer offerTags) items w = (Returned, w')"
    and "distinct (map item_id items)"
    and "calls w' = calls w @ new"
    and "item \<in> set items"
  shows "\<exists>vo. (item_id item, ProductVariants (sku item), Variant vo) \<in> set new"
proof -
  have "\<exists>s s1 pre n post. applyItem js admin offer offerTags item s = (Returned, s1)
          \<and> calls s1 = calls s @ n \<and> calls w' = calls w @ pre @ n @ post
          \<and> (\<forall>c\<in>set pre \<union> set post. fst c \<noteq> item_id item)"
    by (rule forEach_segment[where lg = calls and tag = fst and key = item_id, OF assms(1) _ assms(2,4)])
      (rule applyItem_log)
  then obtain s s1 pre n post where
    st: "applyItem js admin offer offerTags item s = (Returned, s1)" "calls s1 = calls s @ n" and
    l: "calls w' = calls w @ pre @ n @ post"
    by blast
  from applyItem_reply[OF st] obtain vo where
    "(item_id item, ProductVariants (sku item), Variant vo) \<in> set n"
    by blast
  moreover have "new = pre @ n @ post" using l assms(3) by simp
  ultimately show ?thesis by auto
qed

lemma forEach_apply_unmatched:
  assumes "forEach (applyItem js admin offer offerTags) items w = (Returned, w')"
    and "distinct (map item_id items)"
    and "calls w' = calls w @ new"
    and "item \<in> set items"
    and "(item_id item, ProductVariants (sku item), Variant None) \<in> set new"
    and "r \<in> set (offerItems (db w'))" and "item_id r = item_id item"
  shows "r \<in> set (offerItems (db w))"
  using assms
proof (induction items arbitrary: w new)
  case Nil
  then show ?case by simp
next
  case (Cons x xs)
  let ?body = "applyItem js admin offer offerTags"
  let ?L = "(item_id item, ProductVariants (sku item), Variant None)"
  obtain out1 w1 where b: "?body x w = (out1, w1)" by (cases "?body x w")
  with Cons.prems(1) have out1: "out1 = Returned" and rest: "forEach ?body xs w1 = (Returned, w')"
    by (cases out1; simp)+
  from applyItem_frame(1)[OF b] obtain n1 where n1: "calls w1 = calls w @ n1" "\<forall>c\<in>set n1. fst c = item_id x"
    by blast
  from forEach_apply_frame[OF rest] obtain n2 where n2: "calls w' = calls w1 @ n2"
      "\<forall>c\<in>set n2. fst c \<in> item_id ` set xs"
    and t2: "list_all2 (touched (item_id ` set xs)) (offerItems (db w1)) (offerItems (db w'))"
    by blast
  have new: "new = n1 @ n2" using Cons.prems(3) n1 n2 by simp
  have xnotin: "item_id x \<notin> item_id ` set xs" using Cons.prems(2) by auto
  show ?case
  proof (cases "item_id item = item_id x")
    case True
    have "item \<notin> set xs" using True xnotin by (metis imageI)
    with Cons.prems(4) have ix: "item = x" by simp
    have "?L \<notin> set n2"
      using n2(2) True xnotin by force
    with Cons.prems(5) new have in1: "(item_id x, ProductVariants (sku x), Variant None) \<in> set n1"
      using ix by simp
    have "r \<in> set (offerItems (db w1))"
      using touched_unchanged[OF t2 Cons.prems(6)] Cons.prems(7) True xnotin by simp
    with applyItem_unmatched[OF b[unfolded out1] n1(1) in1] show ?thesis by simp
  next
    case False
    with Cons.prems(4) have inxs: "item \<in> set xs" by auto
    have "?L \<notin> set n1"
      using n1(2) False by force
    with Cons.prems(5) new have in2: "?L \<in> set n2"
      by simp
    from Cons.prems(2) have d: "distinct (map item_id xs)" by simp
    have "r \<in> set (offerItems (db w1))"
      by (rule Cons.IH[OF rest d n2(1) inxs in2 Cons.prems(6,7)])
    then show ?thesis
      using touched_unchanged[OF applyItem_frame(4)[OF b]] Cons.prems(7) False by simp
  qed
qed

lemma distinct_key_eq:
  "distinct (map f xs) \<Longrightarrow> a \<in> set xs \<Longrightarrow> b \<in> set xs \<Longrightarrow> f a = f b \<Longrightarrow> a = b"
  by (auto simp: distinct_map dest: inj_onD)

lemma applyOfferPrices_lookups:
  assumes f: "findUnique (db w) i = Some (offer, items)"
    and p: "status offer = ''PENDING''"
    and d: "distinct (map item_id (offerItems (db w)))"
    and r: "applyOfferPrices js admin i w = (Returned, w')"
  shows "\<exists>new. calls w' = calls w @ new
           \<and> lookups new = map (\<lambda>item. (item_id item, sku item)) items
           \<and> (\<forall>item\<in>set items.
                 \<exists>vo. (item_id item, ProductVariants (sku item), Variant vo) \<in> set new)
           \<and> (\<forall>item\<in>set items.
                 (item_id item, ProductVariants (sku item), Variant None) \<in> set new \<longrightarrow>
                 item \<in> set (offerItems (db w')))"
proof -
  let ?body = "applyItem js admin offer (parseTags (tags offer))"
  from applyOfferPrices_run[OF f p r] obtain w1 where
    l: "forEach ?body items w = (Returned, w1)" and c: "calls w' = calls w1"
    and dbw': "db w' = (db w1)\<lparr>offers := (offers (db w1))(i \<mapsto> offer\<lparr>status := ''ACTIVE''\<rparr>)\<rparr>"
    by blast
  from f have items: "items = filter (\<lambda>r. offerId r = i) (offerItems (db w))"
    by (auto simp: findUnique_def split: option.splits)
  from forEach_apply_frame[OF l] obtain new where new: "calls w1 = calls w @ new"
    and t: "list_all2 (touched (item_id ` set items)) (offerItems (db w)) (offerItems (db w1))"
    by blast
  have di: "distinct (map item_id items)"
    using d items by (simp add: distinct_map_filter)
  have lk: "lookups new = map (\<lambda>item. (item_id item, sku item)) items"
    by (rule forEach_apply_lookups[OF l new])
  have rp: "\<forall>item\<in>set items.
              \<exists>vo. (item_id item, ProductVariants (sku item), Variant vo) \<in> set new"
    using forEach_apply_reply[OF l di new] by blast
  have um: "\<forall>item\<in>set items.
              (item_id item, ProductVariants (sku item), Variant None) \<in> set new \<longrightarrow>
              item \<in> set (offerItems (db w'))"
  proof (intro ballI impI)
    fix item
    assume it: "item \<in> set items"
      and L: "(item_id item, ProductVariants (sku item), Variant None) \<in> set new"
    from it items have inw: "item \<in> set (offerItems (db w))" by simp
    from list_all2_set1[OF t inw] obtain r' where r': "r' \<in> set (offerItems (db w1))"
      and tr: "touched (item_id ` set items) item r'"
      by blast
    have id: "item_id r' = item_id item"
      using tr by (auto simp: touched_def)
    have "r' \<in> set (offerItems (db w))"
      by (rule forEach_apply_unmatched[OF l di new it L r' id])
    from distinct_key_eq[OF d this inw id] have "r' = item" .
    with r' dbw' show "item \<in> set (offerItems (db w'))" by simp
  qed
  from new c lk rp um show ?thesis by auto
qed

text \<open>
  C1. Activation of an offer that is \<open>PENDING\<close> and of price type \<open>OFFER\<close>: when
  \<open>applyOfferPrices\<close> returns, the offer is the one read at the start with status
  \<open>ACTIVE\<close>. The run has looked up every item of the offer once, by its SKU, in the
  order of the items, and every lookup was answered, with a variant or with none. An
  item whose lookup was answered with a variant is among the offer's items with its
  original price set to \<open>parseFloat\<close> of the price in that answer, and nothing else
  changed; the answer is logged directly before the price mutation issued for the
  item, so the price is the one read before the mutation. An item whose lookup found
  no variant is among the offer's items as it was. The row keys are distinct, as a
  primary key is.
\<close>

theorem applyOfferPrices_OFFER:
  assumes "findUnique (db w) i = Some (offer, items)"
    and "status offer = ''PENDING''"
    and "priceType offer = ''OFFER''"
    and "distinct (map item_id (offerItems (db w)))"
    and "applyOfferPrices js admin i w = (Returned, w')"
  shows "\<exists>items' new. findUnique (db w') i = Some (offer\<lparr>status := ''ACTIVE''\<rparr>, items')
           \<and> calls w' = calls w @ new
           \<and> lookups new = map (\<lambda>item. (item_id item, sku item)) items
           \<and> (\<forall>item\<in>set items.
                 \<exists>vo. (item_id item, ProductVariants (sku item), Variant vo) \<in> set new)
           \<and> (\<forall>item\<in>set items. \<forall>v.
                 (item_id item, ProductVariants (sku item), Variant (Some v)) \<in> set new \<longrightarrow>
                   item\<lparr>originalPrice := Some (parseFloat js (variant_price v))\<rparr> \<in> set items'
                   \<and> (\<exists>pre rep post. new =
                          pre @ (item_id item, ProductVariants (sku item), Variant (Some v))
                          # (item_id item, ProductVariantsBulkUpdate (product_id v) (variant_id v)
                               (toString js (offerPrice item)), rep) # post))
           \<and> (\<forall>item\<in>set items.
                 (item_id item, ProductVariants (sku item), Variant None) \<in> set new \<longrightarrow>
                 item \<in> set items')"
proof -
  from applyOfferPrices_recorded[OF assms(1,2,4,5)] obtain items' new where
    fu: "findUnique (db w') i = Some (offer\<lparr>status := ''ACTIVE''\<rparr>, items')"
    and new: "calls w' = calls w @ new"
    and rec: "\<forall>item\<in>set items. \<forall>v.
                 (item_id item, ProductVariants (sku item), Variant (Some v)) \<in> set new \<longrightarrow>
                   item\<lparr>originalPrice :=
                          Some (if priceType offer = ''REGULAR'' then offerPrice item
                                else parseFloat js (variant_price v))\<rparr> \<in> set items'
                   \<and> (\<exists>pre rep post. new =
                          pre @ (item_id item, ProductVariants (sku item), Variant (Some v))
                          # (item_id item, ProductVariantsBulkUpdate (product_id v) (variant_id v)
                               (toString js (offerPrice item)), rep) # post)"
    by blast
  from applyOfferPrices_lookups[OF assms(1,2,4,5)] new have
    lk: "lookups new = map (\<lambda>item. (item_id item, sku item)) items"
    and rp: "\<forall>item\<in>set items.
               \<exists>vo. (item_id item, ProductVariants (sku item), Variant vo) \<in> set new"
    and um: "\<forall>item\<in>set items.
               (item_id item, ProductVariants (sku item), Variant None) \<in> set new \<longrightarrow>
               item \<in> set (offerItems (db w'))"
    by auto
  from assms(1) have of_i: "\<forall>item\<in>set items. offerId item = i"
    by (auto simp: findUnique_def split: option.splits)
  from fu have items': "items' = filter (\<lambda>r. offerId r = i) (offerItems (db w'))"
    by (auto simp: findUnique_def split: option.splits)
  have um': "\<forall>item\<in>set items.
               (item_id item, ProductVariants (sku item), Variant None) \<in> set new \<longrightarrow>
               item \<in> set items'"
    using um of_i items' by simp
  have rec': "\<forall>item\<in>set items. \<forall>v.
                 (item_id item, ProductVariants (sku item), Variant (Some v)) \<in> set new \<longrightarrow>
                   item\<lparr>originalPrice := Some (parseFloat js (variant_price v))\<rparr> \<in> set items'
                   \<and> (\<exists>pre rep post. new =
                          pre @ (item_id item, ProductVariants (sku item), Variant (Some v))
                          # (item_id item, ProductVariantsBulkUpdate (product_id v) (variant_id v)
                               (toString js (offerPrice item)), rep) # post)"
    using rec assms(3) by simp
  from fu new lk rp rec' um' show ?thesis
    by (intro exI[of _ items'] exI[of _ new] conjI)
qed

text \<open>The equations that run the synchroniser on the example.\<close>

lemmas run_defs = applyOfferPrices_def revertOfferPrices_def findUnique_def applyItem_def revertItem_def
  graphql_def shopAdmin_def offerItem_update_def offer_update_status_def parseTags_def
  trim_def isSpace_def mergeTags_def removeTags_def newSet_def
  exampleWorld_def exampleDb_def exampleShop_def exampleItems_def exampleOffer_def exampleBuiltins_def

text \<open>
  On the example the run makes four calls: \<open>SK1\<close> is looked up and found at
  \<open>80.00\<close>, its price is set to 100 and its product's tags are merged; \<open>SK2\<close> is
  looked up and not found. Afterwards the first item holds the original price 80 and
  the second is as it was.
\<close>

theorem applyOfferPrices_OFFER_witness:
  "findUnique (db (exampleWorld ''PENDING'' ''OFFER'' None 10)) 1
     = Some (exampleOffer ''PENDING'' ''OFFER'', take 2 (exampleItems None))
   \<and> status (exampleOffer ''PENDING'' ''OFFER'') = ''PENDING''
   \<and> priceType (exampleOffer ''PENDING'' ''OFFER'') = ''OFFER''
   \<and> distinct (map item_id (offerItems (db (exampleWorld ''PENDING'' ''OFFER'' None 10))))
   \<and> fst (applyOfferPrices exampleBuiltins shopAdmin 1 (exampleWorld ''PENDING'' ''OFFER'' None 10))
       = Returned
   \<and> (\<exists>items' new.
         findUnique (db (snd (applyOfferPrices exampleBuiltins shopAdmin 1
                               (exampleWorld ''PENDING'' ''OFFER'' None 10)))) 1
           = Some ((exampleOffer ''PENDING'' ''OFFER'')\<lparr>status := ''ACTIVE''\<rparr>, items')
         \<and> calls (snd (applyOfferPrices exampleBuiltins shopAdmin 1
                         (exampleWorld ''PENDING'' ''OFFER'' None 10)))
             = calls (exampleWorld ''PENDING'' ''OFFER'' None 10) @ new
         \<and> lookups new = map (\<lambda>item. (item_id item, sku item)) (take 2 (exampleItems None))
         \<and> (\<forall>item\<in>set (take 2 (exampleItems None)).
               \<exists>vo. (item_id item, ProductVariants (sku item), Variant vo) \<in> set new)
         \<and> (\<forall>item\<in>set (take 2 (exampleItems None)). \<forall>v.
               (item_id item, ProductVariants (sku item), Variant (Some v)) \<in> set new \<longrightarrow>
                 item\<lparr>originalPrice := Some (parseFloat exampleBuiltins (variant_price v))\<rparr>
                   \<in> set items'
                 \<and> (\<exists>pre rep post. new =
                        pre @ (item_id item, ProductVariants (sku item), Variant (Some v))
                        # (item_id item, ProductVariantsBulkUpdate (product_id v) (variant_id v)
                             (toString exampleBuiltins (offerPrice item)), rep) # post))
         \<and> (\<forall>item\<in>set (take 2 (exampleItems None)).
               (item_id item, ProductVariants (sku item), Variant None) \<in> set new \<longrightarrow>
               item \<in> set items'))
   \<and> calls (snd (applyOfferPrices exampleBuiltins shopAdmin 1
                   (exampleWorld ''PENDING'' ''OFFER'' None 10)))
       = [(1, ProductVariants ''SK1'',
           Variant (Some \<lparr>variant_id = ''v1'', variant_price = ''80.00'', product_id = ''p1'',
                          product_tags = [''summer'']\<rparr>)),
          (1, ProductVariantsBulkUpdate ''p1'' ''v1'' ''100'', UserErrors []),
          (1, ProductUpdate ''p1'' [''summer'', ''sale''], Product),
          (2, ProductVariants ''SK2'', Variant None)]
   \<and> findUnique (db (snd (applyOfferPrices exampleBuiltins shopAdmin 1
                           (exampleWorld ''PENDING'' ''OFFER'' None 10)))) 1
       = Some (exampleOffer ''ACTIVE'' ''OFFER'',
               [\<lparr>item_id = 1, offerId = 1, sku = ''SK1'', offerPrice = 100,
                 originalPrice = Some 80\<rparr>,
                \<lparr>item_id = 2, offerId = 1, sku = ''SK2'', offerPrice = 5,
                 originalPrice = None\<rparr>])"
proof -
  let ?w = "exampleWorld ''PENDING'' ''OFFER'' None 10"
  let ?run = "applyOfferPrices exampleBuiltins shopAdmin 1 ?w"
  have h1: "findUnique (db ?w) 1 = Some (exampleOffer ''PENDING'' ''OFFER'', take 2 (exampleItems None))"
    by (simp add: run_defs)
  have h2: "status (exampleOffer ''PENDING'' ''OFFER'') = ''PENDING''"
    by (simp add: exampleOffer_def)
  have h3: "priceType (exampleOffer ''PENDING'' ''OFFER'') = ''OFFER''"
    by (simp add: exampleOffer_def)
  have h4: "distinct (map item_id (offerItems (db ?w)))"
    by (simp add: run_defs)
  have h5: "fst ?run = Returned"
    by (simp add: run_defs)
  then have h5': "?run = (Returned, snd ?run)"
    by (simp add: prod_eq_iff)
  have c1: "calls (snd ?run)
       = [(1, ProductVariants ''SK1'',
           Variant (Some \<lparr>variant_id = ''v1'', variant_price = ''80.00'', product_id = ''p1'',
                          product_tags = [''summer'']\<rparr>)),
          (1, ProductVariantsBulkUpdate ''p1'' ''v1'' ''100'', UserErrors []),
          (1, ProductUpdate ''p1'' [''summer'', ''sale''], Product),
          (2, ProductVariants ''SK2'', Variant None)]"
    by (simp add: run_defs)
  have c2: "findUnique (db (snd ?run)) 1
       = Some (exampleOffer ''ACTIVE'' ''OFFER'',
               [\<lparr>item_id = 1, offerId = 1, sku = ''SK1'', offerPrice = 100,
                 originalPrice = Some 80\<rparr>,
                \<lparr>item_id = 2, offerId = 1, sku = ''SK2'', offerPrice = 5,
                 originalPrice = None\<rparr>])"
    by (simp add: run_defs)
  from applyOfferPrices_OFFER[OF h1 h2 h3 h4 h5'] h1 h2 h3 h4 h5 c1 c2
  show ?thesis by blast
qed

text \<open>
  C4. Activation of an offer that is \<open>PENDING\<close> and of price type \<open>REGULAR\<close>: when
  \<open>applyOfferPrices\<close> returns, the offer has status \<open>ACTIVE\<close>. The run has looked up
  every item of the offer once, in the order of the items, and every lookup was
  answered. An item whose lookup was answered with a variant is among the offer's
  items with its original price set to its own offer price, whatever price the variant
  had; an item whose lookup found no variant is among the offer's items as it was.
\<close>

theorem applyOfferPrices_REGULAR:
  assumes "findUnique (db w) i = Some (offer, items)"
    and "status offer = ''PENDING''"
    and "priceType offer = ''REGULAR''"
    and "distinct (map item_id (offerItems (db w)))"
    and "applyOfferPrices js admin i w = (Returned, w')"
  shows "\<exists>items' new. findUnique (db w') i = Some (offer\<lparr>status := ''ACTIVE''\<rparr>, items')
           \<and> calls w' = calls w @ new
           \<and> lookups new = map (\<lambda>item. (item_id item, sku item)) items
           \<and> (\<forall>item\<in>set items.
                 \<exists>vo. (item_id item, ProductVariants (sku item), Variant vo) \<in> set new)
           \<and> (\<forall>item\<in>set items. \<forall>v.
                 (item_id item, ProductVariants (sku item), Variant (Some v)) \<in> set new \<longrightarrow>
                   item\<lparr>originalPrice := Some (offerPrice item)\<rparr> \<in> set items')
           \<and> (\<forall>item\<in>set items.
                 (item_id item, ProductVariants (sku item), Variant None) \<in> set new \<longrightarrow>
                 item \<in> set items')"
proof -
  from applyOfferPrices_recorded[OF assms(1,2,4,5)] obtain items' new where
    fu: "findUnique (db w') i = Some (offer\<lparr>status := ''ACTIVE''\<rparr>, items')"
    and new: "calls w' = calls w @ new"
    and rec: "\<forall>item\<in>set items. \<forall>v.
                 (item_id item, ProductVariants (sku item), Variant (Some v)) \<in> set new \<longrightarrow>
                   item\<lparr>originalPrice :=
                          Some (if priceType offer = ''REGULAR'' then offerPrice item
                                else parseFloat js (variant_price v))\<rparr> \<in> set items'
                   \<and> (\<exists>pre rep post. new =
                          pre @ (item_id item, ProductVariants (sku item), Variant (Some v))
                          # (item_id item, ProductVariantsBulkUpdate (product_id v) (variant_id v)
                               (toString js (offerPrice item)), rep) # post)"
    by blast
  from applyOfferPrices_lookups[OF assms(1,2,4,5)] new have
    lk: "lookups new = map (\<lambda>item. (item_id item, sku item)) items"
    and rp: "\<forall>item\<in>set items.
               \<exists>vo. (item_id item, ProductVariants (sku item), Variant vo) \<in> set new"
    and um: "\<forall>item\<in>set items.
               (item_id item, ProductVariants (sku item), Variant None) \<in> set new \<longrightarrow>
               item \<in> set (offerItems (db w'))"
    by auto
  from assms(1) have of_i: "\<forall>item\<in>set items. offerId item = i"
    by (auto simp: findUnique_def split: option.splits)
  from fu have items': "items' = filter (\<lambda>r. offerId r = i) (offerItems (db w'))"
    by (auto simp: findUnique_def split: option.splits)
  have um': "\<forall>item\<in>set items.
               (item_id item, ProductVariants (sku item), Variant None) \<in> set new \<longrightarrow>
               item \<in> set items'"
    using um of_i items' by simp
  have rec': "\<forall>item\<in>set items. \<forall>v.
                 (item_id item, ProductVariants (sku item), Variant (Some v)) \<in> set new \<longrightarrow>
                   item\<lparr>originalPrice := Some (offerPrice item)\<rparr> \<in> set items'"
    using rec assms(3) by simp
  from fu new lk rp rec' um' show ?thesis
    by (intro exI[of _ items'] exI[of _ new] conjI)
qed

text \<open>
  On the example with price type \<open>REGULAR\<close> the run makes the same four calls, and
  the first item holds as original price its own offer price 100, not the 80.00 that
  the lookup read.
\<close>

theorem applyOfferPrices_REGULAR_witness:
  "findUnique (db (exampleWorld ''PENDING'' ''REGULAR'' None 10)) 1
     = Some (exampleOffer ''PENDING'' ''REGULAR'', take 2 (exampleItems None))
   \<and> status (exampleOffer ''PENDING'' ''REGULAR'') = ''PENDING''
   \<and> priceType (exampleOffer ''PENDING'' ''REGULAR'') = ''REGULAR''
   \<and> distinct (map item_id (offerItems (db (exampleWorld ''PENDING'' ''REGULAR'' None 10))))
   \<and> fst (applyOfferPrices exampleBuiltins shopAdmin 1 (exampleWorld ''PENDING'' ''REGULAR'' None 10))
       = Returned
   \<and> (\<exists>items' new.
         findUnique (db (snd (applyOfferPrices exampleBuiltins shopAdmin 1
                               (exampleWorld ''PENDING'' ''REGULAR'' None 10)))) 1
           = Some ((exampleOffer ''PENDING'' ''REGULAR'')\<lparr>status := ''ACTIVE''\<rparr>, items')
         \<and> calls (snd (applyOfferPrices exampleBuiltins shopAdmin 1
                         (exampleWorld ''PENDING'' ''REGULAR'' None 10)))
             = calls (exampleWorld ''PENDING'' ''REGULAR'' None 10) @ new
         \<and> lookups new = map (\<lambda>item. (item_id item, sku item)) (take 2 (exampleItems None))
         \<and> (\<forall>item\<in>set (take 2 (exampleItems None)).
               \<exists>vo. (item_id item, ProductVariants (sku item), Variant vo) \<in> set new)
         \<and> (\<forall>item\<in>set (take 2 (exampleItems None)). \<forall>v.
               (item_id item, ProductVariants (sku item), Variant (Some v)) \<in> set new \<longrightarrow>
                 item\<lparr>originalPrice := Some (offerPrice item)\<rparr> \<in> set items')
         \<and> (\<forall>item\<in>set (take 2 (exampleItems None)).
               (item_id item, ProductVariants (sku item), Variant None) \<in> set new \<longrightarrow>
               item \<in> set items'))
   \<and> calls (snd (applyOfferPrices exampleBuiltins shopAdmin 1
                   (exampleWorld ''PENDING'' ''REGULAR'' None 10)))
       = [(1, ProductVariants ''SK1'',
           Variant (Some \<lparr>variant_id = ''v1'', variant_price = ''80.00'', product_id = ''p1'',
                          product_tags = [''summer'']\<rparr>)),
          (1, ProductVariantsBulkUpdate ''p1'' ''v1'' ''100'', UserErrors []),
          (1, ProductUpdate ''p1'' [''summer'', ''sale''], Product),
          (2, ProductVariants ''SK2'', Variant None)]
   \<and> findUnique (db (snd (applyOfferPrices exampleBuiltins shopAdmin 1
                           (exampleWorld ''PENDING'' ''REGULAR'' None 10)))) 1
       = Some (exampleOffer ''ACTIVE'' ''REGULAR'',
               [\<lparr>item_id = 1, offerId = 1, sku = ''SK1'', offerPrice = 100,
                 originalPrice = Some 100\<rparr>,
                \<lparr>item_id = 2, offerId = 1, sku = ''SK2'', offerPrice = 5,
                 originalPrice = None\<rparr>])"
proof -
  let ?w = "exampleWorld ''PENDING'' ''REGULAR'' None 10"
  let ?run = "applyOfferPrices exampleBuiltins shopAdmin 1 ?w"
  have h1: "findUnique (db ?w) 1 = Some (exampleOffer ''PENDING'' ''REGULAR'', take 2 (exampleItems None))"
    by (simp add: run_defs)
  have h2: "status (exampleOffer ''PENDING'' ''REGULAR'') = ''PENDING''"
    by (simp add: exampleOffer_def)
  have h3: "priceType (exampleOffer ''PENDING'' ''REGULAR'') = ''REGULAR''"
    by (simp add: exampleOffer_def)
  have h4: "distinct (map item_id (offerItems (db ?w)))"
    by (simp add: run_defs)
  have h5: "fst ?run = Returned"
    by (simp add: run_defs)
  then have h5': "?run = (Returned, snd ?run)"
    by (simp add: prod_eq_iff)
  have c1: "calls (snd ?run)
       = [(1, ProductVariants ''SK1'',
           Variant (Some \<lparr>variant_id = ''v1'', variant_price = ''80.00'', product_id = ''p1'',
                          product_tags = [''summer'']\<rparr>)),
          (1, ProductVariantsBulkUpdate ''p1'' ''v1'' ''100'', UserErrors []),
          (1, ProductUpdate ''p1'' [''summer'', ''sale''], Product),
          (2, ProductVariants ''SK2'', Variant None)]"
    by (simp add: run_defs)
  have c2: "findUnique (db (snd ?run)) 1
       = Some (exampleOffer ''ACTIVE'' ''REGULAR'',
               [\<lparr>item_id = 1, offerId = 1, sku = ''SK1'', offerPrice = 100,
                 originalPrice = Some 100\<rparr>,
                \<lparr>item_id = 2, offerId = 1, sku = ''SK2'', offerPrice = 5,
                 originalPrice = None\<rparr>])"
    by (simp add: run_defs)
  from applyOfferPrices_REGULAR[OF h1 h2 h3 h4 h5'] h1 h2 h3 h4 h5 c1 c2
  show ?thesis by blast
qed






text \<open>
  C3. When the offer does not exist or is not \<open>PENDING\<close>, \<open>applyOfferPrices\<close>
  returns normally and leaves the world as it was: no call is logged, the remote state,
  the items and the status are unchanged. The same holds for \<open>revertOfferPrices\<close>
  when the offer does not exist or is not \<open>ACTIVE\<close>.
\<close>

theorem status_guard_noop:
  "((offers (db w) i = None \<or> (\<exists>offer. offers (db w) i = Some offer \<and> status offer \<noteq> ''PENDING''))
      \<longrightarrow> applyOfferPrices js admin i w = (Returned, w))
   \<and> ((offers (db w) i = None \<or> (\<exists>offer. offers (db w) i = Some offer \<and> status offer \<noteq> ''ACTIVE''))
      \<longrightarrow> revertOfferPrices js admin i w = (Returned, w))"
  by (auto simp: applyOfferPrices_def revertOfferPrices_def findUnique_def)

theorem status_guard_noop_witness:
  "(\<exists>offer. offers (db (exampleWorld ''ACTIVE'' ''OFFER'' None 10)) 1 = Some offer
             \<and> status offer \<noteq> ''PENDING'')
   \<and> applyOfferPrices exampleBuiltins shopAdmin 1 (exampleWorld ''ACTIVE'' ''OFFER'' None 10)
       = (Returned, exampleWorld ''ACTIVE'' ''OFFER'' None 10)
   \<and> offers (db (exampleWorld ''ACTIVE'' ''OFFER'' None 10)) 7 = None
   \<and> revertOfferPrices exampleBuiltins shopAdmin 7 (exampleWorld ''ACTIVE'' ''OFFER'' None 10)
       = (Returned, exampleWorld ''ACTIVE'' ''OFFER'' None 10)"
proof -
  let ?w = "exampleWorld ''ACTIVE'' ''OFFER'' None 10"
  have h1: "\<exists>offer. offers (db ?w) 1 = Some offer \<and> status offer \<noteq> ''PENDING''"
    by (simp add: run_defs)
  have h2: "offers (db ?w) 7 = None"
    by (simp add: run_defs)
  from status_guard_noop[of ?w 1 exampleBuiltins shopAdmin] h1
  have a: "applyOfferPrices exampleBuiltins shopAdmin 1 ?w = (Returned, ?w)" by blast
  from status_guard_noop[of ?w 7 exampleBuiltins shopAdmin] h2
  have b: "revertOfferPrices exampleBuiltins shopAdmin 7 ?w = (Returned, ?w)" by blast
  from h1 h2 a b show ?thesis by blast
qed

text \<open>
  C9, as the code has it. An activation that throws leaves the offer \<open>PENDING\<close>,
  with the keys, SKUs and offer prices of its items as they were. When \<open>applyOfferPrices\<close>
  is run again on that store (whatever the remote state is by then) and returns, it has
  looked up every item of the offer once, in order, whether or not the first run had
  reached it; every price mutation of either run carries the offer price of the item it
  was made for; every tag list that either run sends is unchanged by merging the offer's
  tags into it once more, so the merge is idempotent as well; and every item matched in
  the second run has its original price recorded from the second run (its own offer
  price for \<open>REGULAR\<close>, otherwise the price the second lookup read).
\<close>

theorem applyOfferPrices_rerun:
  assumes f: "findUnique (db w) i = Some (offer, items)"
    and p: "status offer = ''PENDING''"
    and d: "distinct (map item_id (offerItems (db w)))"
    and crash: "applyOfferPrices js admin i w = (Threw, w1)"
    and same: "db w1' = db w1"
    and rerun: "applyOfferPrices js admin i w1' = (Returned, w2)"
  shows "\<exists>items1 items2 n1 n2.
           findUnique (db w1) i = Some (offer, items1)
         \<and> map item_id items1 = map item_id items \<and> map sku items1 = map sku items
         \<and> map offerPrice items1 = map offerPrice items
         \<and> calls w1 = calls w @ n1 \<and> calls w2 = calls w1' @ n2
         \<and> lookups n2 = map (\<lambda>item. (item_id item, sku item)) items
         \<and> (\<forall>c\<in>set (n1 @ n2). \<exists>item\<in>set items. fst c = item_id item
               \<and> (\<forall>pid vid pr. fst (snd c) = ProductVariantsBulkUpdate pid vid pr \<longrightarrow>
                     pr = toString js (offerPrice item))
               \<and> (\<forall>pid ts. fst (snd c) = ProductUpdate pid ts \<longrightarrow>
                     mergeTags ts (parseTags (tags offer)) = ts))
         \<and> findUnique (db w2) i = Some (offer\<lparr>status := ''ACTIVE''\<rparr>, items2)
         \<and> (\<forall>item\<in>set items1. \<forall>v.
               (item_id item, ProductVariants (sku item), Variant (Some v)) \<in> set n2 \<longrightarrow>
                 item\<lparr>originalPrice :=
                        Some (if priceType offer = ''REGULAR'' then offerPrice item
                              else parseFloat js (variant_price v))\<rparr> \<in> set items2)"
proof -
  let ?tags = "parseTags (tags offer)"
  let ?body = "applyItem js admin offer ?tags"
  let ?Q = "\<lambda>its c. \<exists>item\<in>set its. fst c = item_id item
               \<and> (\<forall>pid vid pr. fst (snd c) = ProductVariantsBulkUpdate pid vid pr \<longrightarrow>
                     pr = toString js (offerPrice item))
               \<and> (\<forall>pid ts. fst (snd c) = ProductUpdate pid ts \<longrightarrow>
                     mergeTags ts ?tags = ts)"
  from f have o: "offers (db w) i = Some offer"
    and items: "items = filter (\<lambda>r. offerId r = i) (offerItems (db w))"
    by (auto simp: findUnique_def split: option.splits)
  have l1: "forEach ?body items w = (Threw, w1)"
    by (rule applyOfferPrices_crash[OF f p crash])
  from forEach_apply_frame[OF l1] have o1: "offers (db w1) = offers (db w)"
    and t: "list_all2 (touched (item_id ` set items)) (offerItems (db w)) (offerItems (db w1))"
    by blast+
  let ?items1 = "filter (\<lambda>r. offerId r = i) (offerItems (db w1))"
  have f1: "findUnique (db w1) i = Some (offer, ?items1)"
    using o o1 by (simp add: findUnique_def)
  have t1: "list_all2 (touched (item_id ` set items)) items ?items1"
    using touched_filter[OF t] items by simp
  note maps = touched_maps[OF t1]
  from forEach_apply_mutations[OF l1] obtain n1 where n1: "calls w1 = calls w @ n1"
    and q1: "\<forall>c\<in>set n1. ?Q items c"
    by blast
  have f1': "findUnique (db w1') i = Some (offer, ?items1)"
    using f1 same by simp
  have d1: "distinct (map item_id (offerItems (db w1')))"
    using touched_maps[OF t] d same by simp
  from applyOfferPrices_run[OF f1' p rerun] obtain w3 where
    l2: "forEach ?body ?items1 w1' = (Returned, w3)" and c2: "calls w2 = calls w3"
    by blast
  from forEach_apply_mutations[OF l2] obtain n2 where n2: "calls w3 = calls w1' @ n2"
    and q2': "\<forall>c\<in>set n2. ?Q ?items1 c"
    by blast
  have q2: "\<forall>c\<in>set n2. ?Q items c"
  proof
    fix c
    assume "c \<in> set n2"
    with q2' obtain item1 where i1: "item1 \<in> set ?items1" "fst c = item_id item1"
      and pr: "\<forall>pid vid pr. fst (snd c) = ProductVariantsBulkUpdate pid vid pr \<longrightarrow>
                     pr = toString js (offerPrice item1)"
      and tg: "\<forall>pid ts. fst (snd c) = ProductUpdate pid ts \<longrightarrow> mergeTags ts ?tags = ts"
      by blast
    from list_all2_set2[OF t1 i1(1)] obtain item where it: "item \<in> set items"
      and tr: "touched (item_id ` set items) item item1"
      by blast
    have "item_id item1 = item_id item" "offerPrice item1 = offerPrice item"
      using tr by (auto simp: touched_def)
    with it i1 pr tg show "?Q items c" by auto
  qed
  have lk: "lookups n2 = map (\<lambda>item. (item_id item, sku item)) items"
  proof -
    have "lookups n2 = map (\<lambda>item. (item_id item, sku item)) ?items1"
      by (rule forEach_apply_lookups[OF l2 n2])
    also have "\<dots> = zip (map item_id ?items1) (map sku ?items1)"
      by (rule map_pair_zip)
    also have "\<dots> = zip (map item_id items) (map sku items)"
      using maps by simp
    also have "\<dots> = map (\<lambda>item. (item_id item, sku item)) items"
      by (rule map_pair_zip[symmetric])
    finally show ?thesis .
  qed
  from applyOfferPrices_recorded[OF f1' p d1 rerun] obtain items2 new where
    f2: "findUnique (db w2) i = Some (offer\<lparr>status := ''ACTIVE''\<rparr>, items2)"
    and new: "calls w2 = calls w1' @ new"
    and rec: "\<forall>item\<in>set ?items1. \<forall>v.
                 (item_id item, ProductVariants (sku item), Variant (Some v)) \<in> set new \<longrightarrow>
                   item\<lparr>originalPrice :=
                          Some (if priceType offer = ''REGULAR'' then offerPrice item
                                else parseFloat js (variant_price v))\<rparr> \<in> set items2
                   \<and> (\<exists>pre rep post. new =
                          pre @ (item_id item, ProductVariants (sku item), Variant (Some v))
                          # (item_id item, ProductVariantsBulkUpdate (product_id v) (variant_id v)
                               (toString js (offerPrice item)), rep) # post)"
    by blast
  have nn: "new = n2" using new c2 n2 by simp
  have q: "\<forall>c\<in>set (n1 @ n2). ?Q items c"
    using q1 q2 by auto
  have rec': "\<forall>item\<in>set ?items1. \<forall>v.
               (item_id item, ProductVariants (sku item), Variant (Some v)) \<in> set n2 \<longrightarrow>
                 item\<lparr>originalPrice :=
                        Some (if priceType offer = ''REGULAR'' then offerPrice item
                              else parseFloat js (variant_price v))\<rparr> \<in> set items2"
    using rec nn by blast
  have c2': "calls w2 = calls w1' @ n2" using c2 n2 by simp
  from f1 maps n1 c2' lk q f2 rec' show ?thesis
    by (intro exI[of _ ?items1] exI[of _ items2] exI[of _ n1] exI[of _ n2] conjI) blast+
qed

lemmas rerun_defs = run_defs exampleCrashed_def exampleResumed_def

theorem applyOfferPrices_rerun_witness:
  "findUnique (db (exampleWorld ''PENDING'' ''OFFER'' None 3)) 1
     = Some (exampleOffer ''PENDING'' ''OFFER'', take 2 (exampleItems None))
   \<and> status (exampleOffer ''PENDING'' ''OFFER'') = ''PENDING''
   \<and> distinct (map item_id (offerItems (db (exampleWorld ''PENDING'' ''OFFER'' None 3))))
   \<and> applyOfferPrices exampleBuiltins shopAdmin 1 (exampleWorld ''PENDING'' ''OFFER'' None 3)
       = (Threw, exampleCrashed)
   \<and> db exampleResumed = db exampleCrashed
   \<and> fst (applyOfferPrices exampleBuiltins shopAdmin 1 exampleResumed) = Returned
   \<and> (\<exists>items1 items2 n1 n2.
           findUnique (db exampleCrashed) 1 = Some (exampleOffer ''PENDING'' ''OFFER'', items1)
         \<and> map item_id items1 = map item_id (take 2 (exampleItems None))
         \<and> map sku items1 = map sku (take 2 (exampleItems None))
         \<and> map offerPrice items1 = map offerPrice (take 2 (exampleItems None))
         \<and> calls exampleCrashed = calls (exampleWorld ''PENDING'' ''OFFER'' None 3) @ n1
         \<and> calls (snd (applyOfferPrices exampleBuiltins shopAdmin 1 exampleResumed))
             = calls exampleResumed @ n2
         \<and> lookups n2 = map (\<lambda>item. (item_id item, sku item)) (take 2 (exampleItems None))
         \<and> (\<forall>c\<in>set (n1 @ n2). \<exists>item\<in>set (take 2 (exampleItems None)). fst c = item_id item
               \<and> (\<forall>pid vid pr. fst (snd c) = ProductVariantsBulkUpdate pid vid pr \<longrightarrow>
                     pr = toString exampleBuiltins (offerPrice item))
               \<and> (\<forall>pid ts. fst (snd c) = ProductUpdate pid ts \<longrightarrow>
                     mergeTags ts (parseTags (tags (exampleOffer ''PENDING'' ''OFFER''))) = ts))
         \<and> findUnique (db (snd (applyOfferPrices exampleBuiltins shopAdmin 1 exampleResumed))) 1
             = Some ((exampleOffer ''PENDING'' ''OFFER'')\<lparr>status := ''ACTIVE''\<rparr>, items2)
         \<and> (\<forall>item\<in>set items1. \<forall>v.
               (item_id item, ProductVariants (sku item), Variant (Some v)) \<in> set n2 \<longrightarrow>
                 item\<lparr>originalPrice :=
                        Some (if priceType (exampleOffer ''PENDING'' ''OFFER'') = ''REGULAR''
                              then offerPrice item
                              else parseFloat exampleBuiltins (variant_price v))\<rparr> \<in> set items2))"
proof -
  let ?w = "exampleWorld ''PENDING'' ''OFFER'' None 3"
  let ?run = "applyOfferPrices exampleBuiltins shopAdmin 1 exampleResumed"
  have h1: "findUnique (db ?w) 1 = Some (exampleOffer ''PENDING'' ''OFFER'', take 2 (exampleItems None))"
    by (simp add: run_defs)
  have h2: "status (exampleOffer ''PENDING'' ''OFFER'') = ''PENDING''"
    by (simp add: exampleOffer_def)
  have h3: "distinct (map item_id (offerItems (db ?w)))"
    by (simp add: run_defs)
  have "fst (applyOfferPrices exampleBuiltins shopAdmin 1 ?w) = Threw"
    by (simp add: run_defs)
  then have h4: "applyOfferPrices exampleBuiltins shopAdmin 1 ?w = (Threw, exampleCrashed)"
    by (simp add: prod_eq_iff exampleCrashed_def)
  have h5: "db exampleResumed = db exampleCrashed"
    by (simp add: exampleResumed_def)
  have h6: "fst ?run = Returned"
    by (simp add: rerun_defs)
  then have h6': "?run = (Returned, snd ?run)"
    by (simp add: prod_eq_iff)
  from applyOfferPrices_rerun[OF h1 h2 h3 h4 h5 h6'] h1 h2 h3 h4 h5 h6
  show ?thesis by blast
qed

text \<open>
  On the example the first run synchronises \<open>SK1\<close> and throws at the lookup of
  \<open>SK2\<close>. The second run sends the product the tags it already has, and leaves the
  catalogue as the first run left it; the original price of \<open>SK1\<close>, recorded as 80
  by the first run, is 100 after the second.
\<close>

theorem rerun_tag_merge_counterexample:
  "fst (applyOfferPrices exampleBuiltins shopAdmin 1 (exampleWorld ''PENDING'' ''OFFER'' None 3)) = Threw
   \<and> findUnique (db exampleCrashed) 1
       = Some (exampleOffer ''PENDING'' ''OFFER'', take 2 (exampleItems (Some 80)))
   \<and> catalogue (remote exampleCrashed)
       = [(''SK1'', \<lparr>variant_id = ''v1'', variant_price = ''100'', product_id = ''p1'',
                    product_tags = [''summer'', ''sale'']\<rparr>)]
   \<and> fst (applyOfferPrices exampleBuiltins shopAdmin 1 exampleResumed) = Returned
   \<and> calls (snd (applyOfferPrices exampleBuiltins shopAdmin 1 exampleResumed))
       = calls exampleCrashed
         @ [(1, ProductVariants ''SK1'',
             Variant (Some \<lparr>variant_id = ''v1'', variant_price = ''100'', product_id = ''p1'',
                            product_tags = [''summer'', ''sale'']\<rparr>)),
            (1, ProductVariantsBulkUpdate ''p1'' ''v1'' ''100'', UserErrors []),
            (1, ProductUpdate ''p1'' [''summer'', ''sale''], Product),
            (2, ProductVariants ''SK2'', Variant None)]
   \<and> catalogue (remote (snd (applyOfferPrices exampleBuiltins shopAdmin 1 exampleResumed)))
       = catalogue (remote exampleCrashed)
   \<and> findUnique (db (snd (applyOfferPrices exampleBuiltins shopAdmin 1 exampleResumed))) 1
       = Some (exampleOffer ''ACTIVE'' ''OFFER'', take 2 (exampleItems (Some 100)))"
  by (simp add: rerun_defs)

end
